theory Spec2Isabelle
  imports Main "HOL-Library.Sublist" "HOL-Library.AList"
begin

section \<open>Text\<close>

text \<open>
  Python's \<open>str\<close> is modelled by its UTF-8 encoding: a \<open>string\<close> is a list of bytes, which
  is what \<open>open(..., encoding='utf-8')\<close> writes. The encoding is injective, so two Python
  strings are equal exactly when their models are. The Russian words of the source are
  spelled out byte by byte.
\<close>

definition ru_reduced_margins_for :: string where
  "ru_reduced_margins_for =
     [CHR 0xD0, CHR 0xA3, CHR 0xD0, CHR 0xBC, CHR 0xD0, CHR 0xB5, CHR 0xD0, CHR 0xBD, CHR 0xD1,
      CHR 0x8C, CHR 0xD1, CHR 0x88, CHR 0xD0, CHR 0xB5, CHR 0xD0, CHR 0xBD, CHR 0xD0, CHR 0xBD,
      CHR 0xD1, CHR 0x8B, CHR 0xD0, CHR 0xB5] @ '' '' @
     [CHR 0xD0, CHR 0xBF, CHR 0xD0, CHR 0xBE, CHR 0xD0, CHR 0xBB, CHR 0xD1, CHR 0x8F] @ '' '' @
     [CHR 0xD0, CHR 0xB4, CHR 0xD0, CHR 0xBB, CHR 0xD1, CHR 0x8F]"

definition ru_hyphenation_off_for :: string where
  "ru_hyphenation_off_for =
     [CHR 0xD0, CHR 0x9E, CHR 0xD1, CHR 0x82, CHR 0xD0, CHR 0xBA, CHR 0xD0, CHR 0xBB, CHR 0xD1,
      CHR 0x8E, CHR 0xD1, CHR 0x87, CHR 0xD0, CHR 0xB5, CHR 0xD0, CHR 0xBD, CHR 0xD0, CHR 0xB8,
      CHR 0xD0, CHR 0xB5] @ '' '' @
     [CHR 0xD0, CHR 0xBF, CHR 0xD0, CHR 0xB5, CHR 0xD1, CHR 0x80, CHR 0xD0, CHR 0xB5, CHR 0xD0,
      CHR 0xBD, CHR 0xD0, CHR 0xBE, CHR 0xD1, CHR 0x81, CHR 0xD0, CHR 0xBE, CHR 0xD0, CHR 0xB2] @
     '' '' @
     [CHR 0xD1, CHR 0x81, CHR 0xD0, CHR 0xBB, CHR 0xD0, CHR 0xBE, CHR 0xD0, CHR 0xB2] @ '' '' @
     [CHR 0xD0, CHR 0xB4, CHR 0xD0, CHR 0xBB, CHR 0xD1, CHR 0x8F]"

definition ru_automatically_created :: string where
  "ru_automatically_created =
     [CHR 0xD0, CHR 0x90, CHR 0xD0, CHR 0xB2, CHR 0xD1, CHR 0x82, CHR 0xD0, CHR 0xBE, CHR 0xD0,
      CHR 0xBC, CHR 0xD0, CHR 0xB0, CHR 0xD1, CHR 0x82, CHR 0xD0, CHR 0xB8, CHR 0xD1, CHR 0x87,
      CHR 0xD0, CHR 0xB5, CHR 0xD1, CHR 0x81, CHR 0xD0, CHR 0xBA, CHR 0xD0, CHR 0xB8] @ '' '' @
     [CHR 0xD1, CHR 0x81, CHR 0xD0, CHR 0xBE, CHR 0xD0, CHR 0xB7, CHR 0xD0, CHR 0xB4, CHR 0xD0,
      CHR 0xB0, CHR 0xD0, CHR 0xBD, CHR 0xD0, CHR 0xBD, CHR 0xD1, CHR 0x8B, CHR 0xD0, CHR 0xB9]"

definition ru_da :: string where
  "ru_da = [CHR 0xD0, CHR 0xB4, CHR 0xD0, CHR 0xB0]"

definition ru_d :: string where
  "ru_d = [CHR 0xD0, CHR 0xB4]"

text \<open>\<open>str(n)\<close> for a Python integer: decimal digits, a minus sign for a negative number.\<close>

definition digit_char :: "nat \<Rightarrow> char" where
  "digit_char d =
     (if d = 0 then CHR ''0'' else if d = 1 then CHR ''1'' else if d = 2 then CHR ''2''
      else if d = 3 then CHR ''3'' else if d = 4 then CHR ''4'' else if d = 5 then CHR ''5''
      else if d = 6 then CHR ''6'' else if d = 7 then CHR ''7'' else if d = 8 then CHR ''8''
      else CHR ''9'')"

fun str_nat :: "nat \<Rightarrow> string" where
  "str_nat n = (if n < 10 then [digit_char n] else str_nat (n div 10) @ [digit_char (n mod 10)])"

declare str_nat.simps [simp del]

definition str_int :: "int \<Rightarrow> string" where
  "str_int i = (if i < 0 then CHR ''-'' # str_nat (nat (- i)) else str_nat (nat i))"

section \<open>CSS fragments\<close>

text \<open>
  \<open>get_margin_css\<close> is the same f-string in both programs
  (\<open>modify_epub_margins.py\<close> and \<open>interactive_epub_modifier.py\<close>); the replacement field
  \<open>{margin_size}\<close> is \<open>str_int margin_size\<close> and \<open>{{\<close>, \<open>}}\<close> are single braces.
\<close>

definition get_margin_css :: "int \<Rightarrow> string" where
  "get_margin_css margin_size =
     ''\<newline>/* '' @ ru_reduced_margins_for @ '' Kindle */\<newline>html, body {\<newline>    margin-left: -''
     @ str_int margin_size
     @ ''px !important;\<newline>    margin-right: -''
     @ str_int margin_size
     @ ''px !important;\<newline>    padding: 0 !important;\<newline>}\<newline>''"

definition get_no_hyphenation_css :: string where
  "get_no_hyphenation_css =
     ''\<newline>/* '' @ ru_hyphenation_off_for @ '' Kindle */\<newline>* {\<newline>    -webkit-hyphens: none !important;\<newline>    -moz-hyphens: none !important;\<newline>    -ms-hyphens: none !important;\<newline>    hyphens: none !important;\<newline>    word-break: keep-all !important;\<newline>    overflow-wrap: normal !important;\<newline>}\<newline>\<newline>p, div, span, td, th {\<newline>    -webkit-hyphens: none !important;\<newline>    -moz-hyphens: none !important;\<newline>    -ms-hyphens: none !important;\<newline>    hyphens: none !important;\<newline>    word-break: keep-all !important;\<newline>}\<newline>''"

definition get_combined_css :: "int \<Rightarrow> string" where
  "get_combined_css margin_size =
     ''\<newline>/* '' @ ru_reduced_margins_for @ '' Kindle */\<newline>html, body {\<newline>    margin-left: -''
     @ str_int margin_size
     @ ''px !important;\<newline>    margin-right: -''
     @ str_int margin_size
     @ ''px !important;\<newline>    padding: 0 !important;\<newline>}\<newline>\<newline>/* '' @ ru_hyphenation_off_for @ '' Kindle */\<newline>* {\<newline>    -webkit-hyphens: none !important;\<newline>    -moz-hyphens: none !important;\<newline>    -ms-hyphens: none !important;\<newline>    hyphens: none !important;\<newline>    word-break: keep-all !important;\<newline>    overflow-wrap: normal !important;\<newline>}\<newline>\<newline>p, div, span, td, th {\<newline>    -webkit-hyphens: none !important;\<newline>    -moz-hyphens: none !important;\<newline>    -ms-hyphens: none !important;\<newline>    hyphens: none !important;\<newline>    word-break: keep-all !important;\<newline>}\<newline>''"

subsection \<open>Reading a fragment back\<close>

text \<open>
  The fragments are only ever written, never parsed, by the programs. To state what a
  fragment declares, it is read back line by line: \<open>text_lines\<close> is \<open>str.split('\\n')\<close>,
  \<open>css_declaration\<close> is one declaration line carrying the \<open>!important\<close> marker,
  \<open>declaration_value\<close> finds the value declared for a property on such a line, and
  \<open>css_px\<close> reads a CSS length in whole pixels (an optional sign, digits, \<open>px\<close>).
\<close>

fun text_lines :: "string \<Rightarrow> string list" where
  "text_lines [] = [[]]"
| "text_lines (c # cs) =
     (if c = CHR 0x0A then [] # text_lines cs
      else (case text_lines cs of [] \<Rightarrow> [[c]] | l # ls \<Rightarrow> (c # l) # ls))"

definition css_declaration :: "string \<Rightarrow> string \<Rightarrow> string" where
  "css_declaration prop v = ''    '' @ prop @ '': '' @ v @ '' !important;''"

definition declaration_value :: "string \<Rightarrow> string \<Rightarrow> string option" where
  "declaration_value prop css =
     (case find (prefix (''    '' @ prop @ '': '')) (text_lines css) of
        None \<Rightarrow> None
      | Some l \<Rightarrow>
          (let rest = drop (length prop + 6) l
           in if suffix '' !important;'' rest then Some (take (length rest - 12) rest) else None))"

definition is_digit :: "char \<Rightarrow> bool" where
  "is_digit c = (c \<in> set ''0123456789'')"

definition digit_val :: "char \<Rightarrow> nat" where
  "digit_val c = of_char c - 48"

definition nat_of_digits :: "string \<Rightarrow> nat" where
  "nat_of_digits ds = foldl (\<lambda>a c. 10 * a + digit_val c) 0 ds"

definition css_px :: "string \<Rightarrow> int option" where
  "css_px v =
     (let (neg, body) =
            (case v of
               [] \<Rightarrow> (False, v)
             | c # cs \<Rightarrow> if c = CHR ''-'' then (True, cs) else if c = CHR ''+'' then (False, cs) else (False, v));
          ds = takeWhile is_digit body;
          unit = dropWhile is_digit body
      in if ds \<noteq> [] \<and> unit = ''px''
         then Some (if neg then - int (nat_of_digits ds) else int (nat_of_digits ds))
         else None)"

definition declared_px :: "string \<Rightarrow> string \<Rightarrow> int option" where
  "declared_px prop css = Option.bind (declaration_value prop css) css_px"


section \<open>EPUB archives and the extracted directory\<close>

text \<open>
  An EPUB is a ZIP archive: the list of its members in the order of the central
  directory, each as \<open>zipfile\<close> presents it, with \<open>ZipInfo.filename\<close> (components joined
  with \<open>/\<close>), the compression method and the bytes. A member is a directory when its name
  ends in \<open>/\<close>. Names are not assumed to be clean: they may begin with \<open>/\<close>, hold \<open>.\<close> and
  \<open>..\<close> components, and occur more than once.

  \<open>getinfo\<close> is \<open>ZipFile.getinfo\<close>: of several members with one name, \<open>NameToInfo\<close> keeps the
  last. \<open>zip_read\<close> is \<open>ZipFile.read(name)\<close>.
\<close>

datatype compression = ZIP_STORED | ZIP_DEFLATED

datatype zip_info = ZipInfo (filename: string) (compress_type: compression) (data: string)

type_synonym archive = "zip_info list"

definition namelist :: "archive \<Rightarrow> string list" where
  "namelist a = map filename a"

definition getinfo :: "archive \<Rightarrow> string \<Rightarrow> zip_info option" where
  "getinfo a member_name = find (\<lambda>member. filename member = member_name) (rev a)"

definition zip_read :: "archive \<Rightarrow> string \<Rightarrow> string option" where
  "zip_read a member_name = map_option data (getinfo a member_name)"

definition member_is_dir :: "zip_info \<Rightarrow> bool" where
  "member_is_dir member = suffix ''/'' (filename member)"

text \<open>
  A path below the temporary directory is the list of its components. \<open>arcname\<close> is what
  \<open>ZipFile._extract_member\<close> makes of a member's name before it joins it to the target
  directory: the name is split at \<open>/\<close>, and empty components, \<open>.\<close> and \<open>..\<close> are dropped.
  \<open>join_path\<close> is \<open>os.path.relpath(file_path, temp_dir)\<close> of a file below the directory.
\<close>

type_synonym path = "string list"

fun split_char :: "char \<Rightarrow> string \<Rightarrow> string list" where
  "split_char sep [] = [[]]"
| "split_char sep (c # cs) =
     (if c = sep then [] # split_char sep cs
      else (case split_char sep cs of [] \<Rightarrow> [[c]] | l # ls \<Rightarrow> (c # l) # ls))"

definition arcname :: "string \<Rightarrow> path" where
  "arcname member_name =
     filter (\<lambda>x. x \<notin> set [[], ''.'', ''..'']) (split_char CHR ''/'' member_name)"

fun join_path :: "path \<Rightarrow> string" where
  "join_path [] = []"
| "join_path [x] = x"
| "join_path (x # y # ys) = x @ ''/'' @ join_path (y # ys)"

text \<open>
  The temporary directory of \<open>process_epub\<close> is the list of what has been created in it,
  in creation order: regular files with their bytes, and directories made explicitly.
  Parent directories are implicit: a path is a directory when it is the root, was made
  explicitly, or is a proper prefix of something in the list. The exceptions of the
  library calls are values of \<open>error\<close>.
\<close>

datatype node = RegularFile string | Directory

type_synonym tempdir = "(path \<times> node) list"

datatype error =
  BadZipFile | FileNotFoundError | FileExistsError | IsADirectoryError | NotADirectoryError
  | TypeError | EOFError | KeyError

definition is_file :: "tempdir \<Rightarrow> path \<Rightarrow> bool" where
  "is_file fs p = (case map_of fs p of Some (RegularFile c) \<Rightarrow> True | _ \<Rightarrow> False)"

definition is_dir :: "tempdir \<Rightarrow> path \<Rightarrow> bool" where
  "is_dir fs p = (p = [] \<or> map_of fs p = Some Directory \<or> list_ex (strict_prefix p) (map fst fs))"

text \<open>\<open>os.path.exists\<close>: true of a file and of a directory.\<close>

definition path_exists :: "tempdir \<Rightarrow> path \<Rightarrow> bool" where
  "path_exists fs p = (is_file fs p \<or> is_dir fs p)"

text \<open>The proper, non-empty prefixes of a path: the directories it lies in.\<close>

definition ancestors :: "path \<Rightarrow> path list" where
  "ancestors p = map (\<lambda>n. take n p) [1..<length p]"

definition file_in_the_way :: "tempdir \<Rightarrow> path \<Rightarrow> bool" where
  "file_in_the_way fs p = list_ex (is_file fs) (ancestors p)"

text \<open>
  \<open>os.makedirs(p, exist_ok=True)\<close> accepts an existing directory and raises when \<open>p\<close> or
  one of its parents is a regular file.
\<close>

definition makedirs :: "tempdir \<Rightarrow> path \<Rightarrow> error + tempdir" where
  "makedirs fs p =
     (if is_dir fs p then Inr fs
      else if is_file fs p then Inl FileExistsError
      else if file_in_the_way fs p then Inl NotADirectoryError
      else Inr (fs @ [(p, Directory)]))"

text \<open>
  \<open>open(p, 'w')\<close> followed by \<open>write\<close>, and \<open>open(p, 'a')\<close> followed by \<open>write\<close>. In the
  source every write is preceded by the creation of the parent directory, so a write
  fails only where the path is a directory or a parent is a regular file. A file keeps
  its place in the listing when it is overwritten; a new file is listed last.
\<close>

definition write_file :: "tempdir \<Rightarrow> path \<Rightarrow> string \<Rightarrow> error + tempdir" where
  "write_file fs p content =
     (if is_dir fs p then Inl IsADirectoryError
      else if file_in_the_way fs p then Inl NotADirectoryError
      else Inr (AList.update p (RegularFile content) fs))"

definition append_file :: "tempdir \<Rightarrow> path \<Rightarrow> string \<Rightarrow> error + tempdir" where
  "append_file fs p content =
     (if is_dir fs p then Inl IsADirectoryError
      else if file_in_the_way fs p then Inl NotADirectoryError
      else Inr (AList.update p
                  (RegularFile
                     ((case map_of fs p of Some (RegularFile old) \<Rightarrow> old | _ \<Rightarrow> []) @ content))
                  fs))"

text \<open>
  \<open>ZipFile._extract_member\<close>: the target is the directory joined with the \<open>arcname\<close> of the
  member; the upper directories are made; a directory member is made unless it is a
  directory already (\<open>os.mkdir\<close> raises as \<open>os.makedirs\<close> does where a regular file is in
  the way), and a file member is written with \<open>open(targetpath, "wb")\<close>, over whatever
  file is there.

  \<open>zip_ref.extractall(temp_dir)\<close> goes through \<open>namelist()\<close> and extracts, for each name, the
  member that \<open>getinfo\<close> gives for it.
\<close>

definition extract_member :: "tempdir \<Rightarrow> zip_info \<Rightarrow> error + tempdir" where
  "extract_member fs member =
     (let targetpath = arcname (filename member)
      in if member_is_dir member then makedirs fs targetpath
         else write_file fs targetpath (data member))"

fun extract_names :: "archive \<Rightarrow> tempdir \<Rightarrow> string list \<Rightarrow> error + tempdir" where
  "extract_names a fs [] = Inr fs"
| "extract_names a fs (member_name # names) =
     (case getinfo a member_name of
        None \<Rightarrow> Inl KeyError
      | Some member \<Rightarrow>
          (case extract_member fs member of
             Inl err \<Rightarrow> Inl err
           | Inr fs' \<Rightarrow> extract_names a fs' names))"

definition extractall :: "archive \<Rightarrow> error + tempdir" where
  "extractall a = extract_names a [] (namelist a)"

subsection \<open>The stylesheet\<close>

text \<open>
  \<open>find_css_file\<close>, the same in both programs: the first of four conventional paths that
  exists in the extracted directory, or \<open>None\<close>.
\<close>

definition possible_paths :: "path list" where
  "possible_paths =
     [[''OPS'', ''style.css''], [''OEBPS'', ''style.css''], [''styles'', ''style.css''],
      [''css'', ''style.css'']]"

definition find_css_file :: "tempdir \<Rightarrow> path option" where
  "find_css_file temp_dir = find (path_exists temp_dir) possible_paths"

definition css_placeholder :: string where
  "css_placeholder = ''/* '' @ ru_automatically_created @ '' CSS */\<newline>''"

text \<open>
  The lines of \<open>process_epub\<close> that follow the extraction: when \<open>find_css_file\<close> finds
  nothing, \<open>OPS\<close> is made and \<open>OPS/style.css\<close> is written with the placeholder comment.
\<close>

definition locate_or_create_css :: "tempdir \<Rightarrow> error + (path \<times> tempdir)" where
  "locate_or_create_css temp_dir =
     (case find_css_file temp_dir of
        Some css_file \<Rightarrow> Inr (css_file, temp_dir)
      | None \<Rightarrow>
          (case makedirs temp_dir [''OPS''] of
             Inl err \<Rightarrow> Inl err
           | Inr fs1 \<Rightarrow>
               (case write_file fs1 [''OPS'', ''style.css''] css_placeholder of
                  Inl err \<Rightarrow> Inl err
                | Inr fs2 \<Rightarrow> Inr ([''OPS'', ''style.css''], fs2))))"

subsection \<open>Writing the new archive\<close>

text \<open>
  \<open>os.walk\<close> yields the regular files of the tree. The order in which it yields them is
  the file system's, not the program's: here it is the listing order, and no property
  below depends on it. The file name that the loop compares with \<open>'mimetype'\<close> is the
  last component of the path.
\<close>

fun regular_files :: "tempdir \<Rightarrow> (path \<times> string) list" where
  "regular_files [] = []"
| "regular_files ((p, RegularFile c) # fs) = (p, c) # regular_files fs"
| "regular_files ((p, Directory) # fs) = regular_files fs"

definition basename :: "path \<Rightarrow> string" where
  "basename p = (if p = [] then [] else last p)"

text \<open>
  \<open>zip_out.write(mimetype_path, 'mimetype', compress_type=ZIP_STORED)\<close>, guarded by
  \<open>os.path.exists\<close>; \<open>ZipFile.write\<close> of a directory writes an empty member whose name ends
  in \<open>/\<close>.
\<close>

definition write_mimetype :: "tempdir \<Rightarrow> archive" where
  "write_mimetype temp_dir =
     (if path_exists temp_dir [''mimetype'']
      then (case map_of temp_dir [''mimetype''] of
              Some (RegularFile c) \<Rightarrow> [ZipInfo ''mimetype'' ZIP_STORED c]
            | _ \<Rightarrow> [ZipInfo ''mimetype/'' ZIP_STORED []])
      else [])"

definition write_other_files :: "tempdir \<Rightarrow> archive" where
  "write_other_files temp_dir =
     map (\<lambda>(p, c). ZipInfo (join_path p) ZIP_DEFLATED c)
       (filter (\<lambda>(p, c). basename p \<noteq> ''mimetype'') (regular_files temp_dir))"

definition build_epub :: "tempdir \<Rightarrow> archive" where
  "build_epub temp_dir = write_mimetype temp_dir @ write_other_files temp_dir"

text \<open>
  The body of \<open>with tempfile.TemporaryDirectory()\<close> in \<open>process_epub\<close>, from the opened
  source archive to the members written to the output archive.
\<close>

definition rewrite_archive :: "string \<Rightarrow> archive \<Rightarrow> error + archive" where
  "rewrite_archive css_content a =
     (case extractall a of
        Inl err \<Rightarrow> Inl err
      | Inr temp_dir \<Rightarrow>
          (case locate_or_create_css temp_dir of
             Inl err \<Rightarrow> Inl err
           | Inr (css_file, fs1) \<Rightarrow>
               (case append_file fs1 css_file css_content of
                  Inl err \<Rightarrow> Inl err
                | Inr fs2 \<Rightarrow> Inr (build_epub fs2))))"

text \<open>
  What extraction guarantees of the directory: no path is listed twice, and no listed
  path is the root or lies under a regular file.
\<close>

definition wf_tempdir :: "tempdir \<Rightarrow> bool" where
  "wf_tempdir fs =
     (distinct (map fst fs) \<and> list_all (\<lambda>p. p \<noteq> [] \<and> \<not> file_in_the_way fs p) (map fst fs))"

subsection \<open>Sample archives\<close>

definition sample_epub :: archive where
  "sample_epub =
     [ZipInfo ''mimetype'' ZIP_STORED ''application/epub+zip'',
      ZipInfo ''META-INF/container.xml'' ZIP_DEFLATED ''<container/>'',
      ZipInfo ''OEBPS/style.css'' ZIP_DEFLATED ''p { margin: 0 }'',
      ZipInfo ''OEBPS/ch1.xhtml'' ZIP_DEFLATED ''<html/>'']"

definition epub_without_css :: archive where
  "epub_without_css =
     [ZipInfo ''mimetype'' ZIP_STORED ''application/epub+zip'',
      ZipInfo ''META-INF/container.xml'' ZIP_DEFLATED ''<container/>'',
      ZipInfo ''text/ch1.xhtml'' ZIP_DEFLATED ''<html/>'']"

definition epub_with_file_named_OPS :: archive where
  "epub_with_file_named_OPS =
     [ZipInfo ''mimetype'' ZIP_STORED ''application/epub+zip'',
      ZipInfo ''OPS'' ZIP_DEFLATED ''notes'']"

definition epub_with_nested_mimetype :: archive where
  "epub_with_nested_mimetype =
     [ZipInfo ''mimetype'' ZIP_STORED ''application/epub+zip'',
      ZipInfo ''META-INF/container.xml'' ZIP_DEFLATED ''<container/>'',
      ZipInfo ''OEBPS/style.css'' ZIP_DEFLATED ''p { margin: 0 }'',
      ZipInfo ''OEBPS/fonts/mimetype'' ZIP_DEFLATED ''font/ttf'']"

definition epub_with_second_mimetype :: archive where
  "epub_with_second_mimetype =
     [ZipInfo ''mimetype'' ZIP_STORED ''application/epub+zip'',
      ZipInfo ''OEBPS/style.css'' ZIP_DEFLATED ''p { margin: 0 }'',
      ZipInfo ''./mimetype'' ZIP_DEFLATED ''text/plain'']"

section \<open>Paths and files on disk\<close>

text \<open>
  \<open>pathlib.Path\<close> on POSIX: a root (\<open>''\<close>, \<open>/\<close> or \<open>//\<close>) and the components of the path,
  without empty components and without \<open>.\<close>. \<open>Path s\<close> parses a string as
  \<open>posixpath.splitroot\<close> and \<open>PurePath._parse_path\<close> do.
\<close>

datatype pure_path = PurePath (root: string) (parts: "string list")

definition splitroot :: "string \<Rightarrow> string \<times> string" where
  "splitroot p =
     (if take 1 p \<noteq> ''/'' then ('''', p)
      else if take 1 (drop 1 p) \<noteq> ''/'' \<or> take 1 (drop 2 p) = ''/'' then (''/'', drop 1 p)
      else (''//'', drop 2 p))"

definition Path :: "string \<Rightarrow> pure_path" where
  "Path s =
     (let (rt, rel) = splitroot s
      in PurePath rt (filter (\<lambda>x. x \<noteq> [] \<and> x \<noteq> ''.'') (split_char CHR ''/'' rel)))"

definition name :: "pure_path \<Rightarrow> string" where
  "name p = (if parts p = [] then [] else last (parts p))"

definition parent :: "pure_path \<Rightarrow> pure_path" where
  "parent p = (if parts p = [] then p else PurePath (root p) (butlast (parts p)))"

text \<open>\<open>str.rfind('.')\<close>, with \<open>None\<close> for \<open>-1\<close>.\<close>

definition rfind_dot :: "string \<Rightarrow> nat option" where
  "rfind_dot s =
     (let n = length (takeWhile (\<lambda>c. c \<noteq> CHR ''.'') (rev s))
      in if n = length s then None else Some (length s - n - 1))"

text \<open>
  \<open>PurePath.suffix\<close> and \<open>PurePath.stem\<close>: the name is cut at its last dot when that dot is
  neither the first nor the last character.
\<close>

definition path_suffix :: "pure_path \<Rightarrow> string" where
  "path_suffix p =
     (case rfind_dot (name p) of
        None \<Rightarrow> []
      | Some i \<Rightarrow> if 0 < i \<and> i < length (name p) - 1 then drop i (name p) else [])"

definition stem :: "pure_path \<Rightarrow> string" where
  "stem p =
     (case rfind_dot (name p) of
        None \<Rightarrow> name p
      | Some i \<Rightarrow> if 0 < i \<and> i < length (name p) - 1 then take i (name p) else name p)"

text \<open>\<open>p / s\<close>: an absolute right operand replaces the left one.\<close>

definition joinpath :: "pure_path \<Rightarrow> string \<Rightarrow> pure_path" where
  "joinpath p s =
     (let q = Path s in if root q \<noteq> [] then q else PurePath (root p) (parts p @ parts q))"

text \<open>
  The disk maps the path of a regular file to what it holds: an archive that \<open>zipfile\<close> can
  open, or anything else. Directories are implicit. Paths are compared as \<open>pathlib\<close>
  compares them; links and \<open>..\<close> are not resolved. Opening the output archive for writing
  is taken to succeed.
\<close>

datatype file_data = Epub archive | NotAnArchive

type_synonym disk = "pure_path \<Rightarrow> file_data option"

text \<open>\<open>zipfile.ZipFile(epub_path, 'r')\<close>.\<close>

definition open_epub :: "disk \<Rightarrow> pure_path \<Rightarrow> error + archive" where
  "open_epub d p =
     (case d p of
        None \<Rightarrow> Inl FileNotFoundError
      | Some NotAnArchive \<Rightarrow> Inl BadZipFile
      | Some (Epub a) \<Rightarrow> Inr a)"

subsection \<open>\<open>process_epub\<close> of \<open>modify_epub_margins.py\<close>\<close>

definition output_path_cli :: "string \<Rightarrow> pure_path" where
  "output_path_cli epub_path =
     joinpath (parent (Path epub_path)) (stem (Path epub_path) @ ''-upgrade.epub'')"

definition process_epub_cli :: "string \<Rightarrow> int \<Rightarrow> disk \<Rightarrow> error + disk" where
  "process_epub_cli epub_path margin_size d =
     (case open_epub d (Path epub_path) of
        Inl err \<Rightarrow> Inl err
      | Inr a \<Rightarrow>
          (case rewrite_archive (get_margin_css margin_size) a of
             Inl err \<Rightarrow> Inl err
           | Inr out \<Rightarrow> Inr (d(output_path_cli epub_path \<mapsto> Epub out))))"

subsection \<open>\<open>process_epub\<close> of \<open>interactive_epub_modifier.py\<close>\<close>

datatype modification = Margins | Hyphens | Both

datatype output_mode = Folder | Replace

definition css_for :: "modification \<Rightarrow> int \<Rightarrow> string" where
  "css_for modification_type margin_size =
     (case modification_type of
        Margins \<Rightarrow> get_margin_css margin_size
      | Hyphens \<Rightarrow> get_no_hyphenation_css
      | Both \<Rightarrow> get_combined_css margin_size)"

text \<open>
  In folder mode \<open>output_dir / epub_path.name\<close> needs an \<open>output_dir\<close>; \<open>main\<close> always passes
  one, and \<open>None / str\<close> raises \<open>TypeError\<close>.
\<close>

definition output_path_interactive ::
  "string \<Rightarrow> output_mode \<Rightarrow> pure_path option \<Rightarrow> pure_path option" where
  "output_path_interactive epub_path mode output_dir =
     (case mode of
        Replace \<Rightarrow> Some (Path epub_path)
      | Folder \<Rightarrow>
          (case output_dir of
             None \<Rightarrow> None
           | Some dir \<Rightarrow> Some (joinpath dir (name (Path epub_path)))))"

definition process_epub_interactive ::
  "modification \<Rightarrow> int \<Rightarrow> output_mode \<Rightarrow> pure_path option \<Rightarrow> string \<Rightarrow> disk \<Rightarrow> error + disk"
  where
  "process_epub_interactive modification_type margin_size mode output_dir epub_path d =
     (case output_path_interactive epub_path mode output_dir of
        None \<Rightarrow> Inl TypeError
      | Some output_path \<Rightarrow>
          (case open_epub d (Path epub_path) of
             Inl err \<Rightarrow> Inl err
           | Inr a \<Rightarrow>
               (case rewrite_archive (css_for modification_type margin_size) a of
                  Inl err \<Rightarrow> Inl err
                | Inr out \<Rightarrow> Inr (d(output_path \<mapsto> Epub out)))))"

section \<open>The two programs\<close>

text \<open>
  Library functions whose result depends on Unicode tables or on the working directory are
  parameters of the model: \<open>int(s)\<close> (\<open>None\<close> where it raises \<open>ValueError\<close>), \<open>str.lower\<close>,
  \<open>str.strip\<close>, and \<open>glob.glob\<close> on the working directory as it is when the program starts
  (both programs call it before they write anything).
\<close>

record pylib =
  py_int :: "string \<Rightarrow> int option"
  py_lower :: "string \<Rightarrow> string"
  py_strip :: "string \<Rightarrow> string"
  py_glob :: "string \<Rightarrow> string list"

text \<open>How a run of \<open>main\<close> ends: \<open>sys.exit(n)\<close>, the end of \<open>main\<close>, or an uncaught exception.\<close>

datatype outcome = Exit int | Return | Uncaught error

subsection \<open>The batch loop\<close>

text \<open>
  Both programs end in the same loop: \<open>process_epub\<close> is called on each file in turn inside
  \<open>try\<close>; a success adds one to \<open>success_count\<close>, an exception is reported and the loop goes
  on. The loop returns the count, what happened to each file, and the disk.
\<close>

fun run_batch ::
  "(string \<Rightarrow> disk \<Rightarrow> error + disk) \<Rightarrow> string list \<Rightarrow> nat \<Rightarrow> disk
     \<Rightarrow> nat \<times> (string \<times> error option) list \<times> disk" where
  "run_batch process [] success_count d = (success_count, [], d)"
| "run_batch process (epub_file # files) success_count d =
     (case process epub_file d of
        Inr d1 \<Rightarrow>
          (case run_batch process files (success_count + 1) d1 of
             (n, results, d') \<Rightarrow> (n, (epub_file, None) # results, d'))
      | Inl e \<Rightarrow>
          (case run_batch process files success_count d of
             (n, results, d') \<Rightarrow> (n, (epub_file, Some e) # results, d')))"

subsection \<open>\<open>modify_epub_margins.py\<close>\<close>

text \<open>What the program prints, one constructor for each \<open>print\<close> of \<open>main\<close> and \<open>process_epub\<close>
  (the warning that no stylesheet was found is left out).\<close>

datatype message =
    Usage
  | ErrNotANumber string
  | ErrMarginNeedsNumber
  | NoEpubInFolder
  | FoundInFolder nat
  | NoFilesGiven
  | SkipAlreadyProcessed string
  | SkipNotFound string
  | NothingToProcess
  | WillProcess nat int "string list"
  | Processing string int
  | Finished pure_path
  | ErrProcessing string error
  | Summary nat nat

text \<open>
  The argument loop \<open>while i < len(args)\<close>: the value of \<open>--margin\<close> is consumed together
  with the option, every other argument alone.
\<close>

fun parse_args ::
  "pylib \<Rightarrow> string list \<Rightarrow> string list \<Rightarrow> int \<Rightarrow> (outcome \<times> message list) + (string list \<times> int)"
  where
  "parse_args L [] epub_files margin_size = Inr (epub_files, margin_size)"
| "parse_args L (arg # rest) epub_files margin_size =
     (if arg = ''--help'' \<or> arg = ''-h'' then Inl (Exit 0, [Usage])
      else if arg = ''--margin'' then
        (case rest of
           [] \<Rightarrow> Inl (Exit 1, [ErrMarginNeedsNumber])
         | v # rest' \<Rightarrow>
             (case py_int L v of
                None \<Rightarrow> Inl (Exit 1, [ErrNotANumber v])
              | Some n \<Rightarrow> parse_args L rest' epub_files n))
      else if arg = ''--all'' then parse_args L rest epub_files margin_size
      else if CHR ''*'' \<in> set arg then
        parse_args L rest
          (epub_files @ filter (\<lambda>f. suffix ''.epub'' (py_lower L f)) (py_glob L arg)) margin_size
      else parse_args L rest (epub_files @ [arg]) margin_size)"

definition get_epub_files_cli :: "pylib \<Rightarrow> string list" where
  "get_epub_files_cli L = py_glob L ''*.epub''"

definition resolve_files ::
  "pylib \<Rightarrow> string list \<Rightarrow> string list \<Rightarrow> (outcome \<times> message list) + (string list \<times> message list)"
  where
  "resolve_files L argv epub_files =
     (if epub_files = [] \<or> ''--all'' \<in> set argv then
        (let found = get_epub_files_cli L
         in if found = [] then Inl (Exit 1, [NoEpubInFolder])
            else Inr (found, [FoundInFolder (length found)]))
      else Inr (epub_files, []))"

text \<open>
  The loop over \<open>set(epub_files)\<close> that builds \<open>unique_files\<close>. Python does not fix the order
  in which a set is iterated; here it is the order of first occurrence.
  \<open>os.path.exists\<close> is true of a path that the disk holds.
\<close>

fun filter_existing :: "pylib \<Rightarrow> disk \<Rightarrow> string list \<Rightarrow> string list \<times> message list" where
  "filter_existing L d [] = ([], [])"
| "filter_existing L d (epub_file # files) =
     (case filter_existing L d files of
        (unique_files, msgs) \<Rightarrow>
          if d (Path epub_file) \<noteq> None \<and> suffix ''.epub'' (py_lower L epub_file) then
            (if \<not> suffix ''-upgrade.epub'' epub_file then (epub_file # unique_files, msgs)
             else (unique_files, SkipAlreadyProcessed epub_file # msgs))
          else (unique_files, SkipNotFound epub_file # msgs))"

fun cli_report :: "int \<Rightarrow> string \<times> error option \<Rightarrow> message list" where
  "cli_report margin_size (epub_file, None) =
     [Processing epub_file margin_size, Finished (output_path_cli epub_file)]"
| "cli_report margin_size (epub_file, Some e) =
     [Processing epub_file margin_size, ErrProcessing epub_file e]"

definition main_cli :: "pylib \<Rightarrow> string list \<Rightarrow> disk \<Rightarrow> outcome \<times> message list \<times> disk" where
  "main_cli L argv d =
     (case parse_args L (tl argv) [] 20 of
        Inl (status, msgs) \<Rightarrow> (status, msgs, d)
      | Inr (epub_files0, margin_size) \<Rightarrow>
          (case resolve_files L argv epub_files0 of
             Inl (status, msgs) \<Rightarrow> (status, msgs, d)
           | Inr (epub_files, msgs1) \<Rightarrow>
               if epub_files = [] then (Exit 1, msgs1 @ [NoFilesGiven], d)
               else
                 (case filter_existing L d (remdups epub_files) of
                    (unique_files, msgs2) \<Rightarrow>
                      if unique_files = [] then (Exit 1, msgs1 @ msgs2 @ [NothingToProcess], d)
                      else
                        (case run_batch (\<lambda>f. process_epub_cli f margin_size) unique_files 0 d of
                           (success_count, results, d') \<Rightarrow>
                             (Return,
                              msgs1 @ msgs2
                                @ [WillProcess (length unique_files) margin_size unique_files]
                                @ concat (map (cli_report margin_size) results)
                                @ [Summary success_count (length unique_files)],
                              d')))))"

subsection \<open>\<open>interactive_epub_modifier.py\<close>\<close>

definition output_markers :: "string list" where
  "output_markers = [''-margins.epub'', ''-no-hyphens.epub'', ''-enhanced.epub'', ''-upgrade.epub'']"

definition get_epub_files_interactive :: "pylib \<Rightarrow> string list" where
  "get_epub_files_interactive L =
     filter (\<lambda>f. \<not> list_ex (\<lambda>marker. sublist marker f) output_markers) (py_glob L ''*.epub'')"

text \<open>
  A run is the sequence of its events: a line read by \<open>input()\<close> at one of the seven
  prompts, a message printed, or a call of \<open>process_epub\<close>. Menus and banners are not
  modelled. \<open>input()\<close> on an exhausted input raises \<open>EOFError\<close>, which nothing catches.
\<close>

datatype prompt =
  AskModification | AskMargin | AskOutputMode | AskConfirmReplace | AskFiles | AskConfirmStart
  | AskContinue

datatype notice =
    NoEpubFound
  | EnterNumber0to3
  | EnterANumber
  | Enter1or2or0
  | EnterNumberUpTo nat
  | OverwriteCancelled
  | FolderCreated
  | ProcessingFailed string error
  | Processed nat nat
  | SavedToFolder
  | WorkFinished

datatype event =
    Input prompt string
  | Output notice
  | Process string modification int output_mode

fun ask_modification_type ::
  "pylib \<Rightarrow> string list \<Rightarrow> event list \<times> (error + modification option) \<times> string list" where
  "ask_modification_type L [] = ([], Inl EOFError, [])"
| "ask_modification_type L (l # ls) =
     (let choice = py_strip L l
      in if choice = ''1'' then ([Input AskModification l], Inr (Some Margins), ls)
         else if choice = ''2'' then ([Input AskModification l], Inr (Some Hyphens), ls)
         else if choice = ''3'' then ([Input AskModification l], Inr (Some Both), ls)
         else if choice = ''0'' then ([Input AskModification l], Inr None, ls)
         else (case ask_modification_type L ls of
                 (ev, r, rest) \<Rightarrow> (Input AskModification l # Output EnterNumber0to3 # ev, r, rest)))"

fun ask_margin_size :: "pylib \<Rightarrow> string list \<Rightarrow> event list \<times> (error + int) \<times> string list" where
  "ask_margin_size L [] = ([], Inl EOFError, [])"
| "ask_margin_size L (l # ls) =
     (let size = py_strip L l
      in if size = [] then ([Input AskMargin l], Inr 20, ls)
         else (case py_int L size of
                 Some n \<Rightarrow> ([Input AskMargin l], Inr n, ls)
               | None \<Rightarrow>
                   (case ask_margin_size L ls of
                      (ev, r, rest) \<Rightarrow> (Input AskMargin l # Output EnterANumber # ev, r, rest))))"

fun ask_output_mode ::
  "pylib \<Rightarrow> string list \<Rightarrow> event list \<times> (error + output_mode option) \<times> string list" where
  "ask_output_mode L [] = ([], Inl EOFError, [])"
| "ask_output_mode L (l # ls) =
     (let choice = py_strip L l
      in if choice = ''1'' then ([Input AskOutputMode l], Inr (Some Folder), ls)
         else if choice = ''2'' then ([Input AskOutputMode l], Inr (Some Replace), ls)
         else if choice = ''0'' then ([Input AskOutputMode l], Inr None, ls)
         else (case ask_output_mode L ls of
                 (ev, r, rest) \<Rightarrow> (Input AskOutputMode l # Output Enter1or2or0 # ev, r, rest)))"

fun ask_file_selection ::
  "pylib \<Rightarrow> string list \<Rightarrow> string list
     \<Rightarrow> event list \<times> (error + string list option) \<times> string list" where
  "ask_file_selection L epub_files [] = ([], Inl EOFError, [])"
| "ask_file_selection L epub_files (l # ls) =
     (let choice = py_strip L l
      in if choice = ''0'' then ([Input AskFiles l], Inr None, ls)
         else if choice = str_nat (length epub_files + 1) then
           ([Input AskFiles l], Inr (Some epub_files), ls)
         else
           (case py_int L choice of
              Some n \<Rightarrow>
                if 0 \<le> n - 1 \<and> n - 1 < int (length epub_files) then
                  ([Input AskFiles l], Inr (Some [epub_files ! nat (n - 1)]), ls)
                else
                  (case ask_file_selection L epub_files ls of
                     (ev, r, rest) \<Rightarrow>
                       (Input AskFiles l # Output (EnterNumberUpTo (length epub_files + 1)) # ev,
                        r, rest))
            | None \<Rightarrow>
                (case ask_file_selection L epub_files ls of
                   (ev, r, rest) \<Rightarrow> (Input AskFiles l # Output EnterANumber # ev, r, rest))))"

text \<open>The two yes/no tests: \<open>answer.strip().lower()\<close> against the accepted words.\<close>

definition affirms_overwrite :: "pylib \<Rightarrow> string \<Rightarrow> bool" where
  "affirms_overwrite L answer = (py_lower L (py_strip L answer) \<in> set [''yes'', ru_da])"

definition affirms :: "pylib \<Rightarrow> string \<Rightarrow> bool" where
  "affirms L answer = (py_lower L (py_strip L answer) \<in> set [''y'', ''yes'', ru_d, ru_da])"

text \<open>
  One pass through the body of \<open>while True\<close> in \<open>main\<close> ends with \<open>continue\<close> (or the end of
  the body), with \<open>break\<close>, or with an exception. The body is split where the source has
  its comments: the final confirmation and the processing, the file selection after the
  output folder is made, the overwrite warning, and the menus before it.
\<close>

datatype control = Again | Stop | Crash error

fun batch_events :: "modification \<Rightarrow> int \<Rightarrow> output_mode \<Rightarrow> string \<times> error option \<Rightarrow> event list"
  where
  "batch_events mt margin_size mode (epub_file, None) = [Process epub_file mt margin_size mode]"
| "batch_events mt margin_size mode (epub_file, Some e) =
     [Process epub_file mt margin_size mode, Output (ProcessingFailed epub_file e)]"

definition confirm_and_process ::
  "pylib \<Rightarrow> modification \<Rightarrow> int \<Rightarrow> output_mode \<Rightarrow> pure_path option \<Rightarrow> string list
     \<Rightarrow> string list \<Rightarrow> disk \<Rightarrow> event list \<times> control \<times> string list \<times> disk" where
  "confirm_and_process L mt margin_size mode output_dir selected_files inputs d =
     (case inputs of
        [] \<Rightarrow> ([], Crash EOFError, [], d)
      | confirm # inputs1 \<Rightarrow>
          if \<not> affirms L confirm then ([Input AskConfirmStart confirm], Again, inputs1, d)
          else
            (case run_batch (process_epub_interactive mt margin_size mode output_dir)
                    selected_files 0 d of
               (success_count, results, d') \<Rightarrow>
                 (let ev = Input AskConfirmStart confirm
                             # concat (map (batch_events mt margin_size mode) results)
                             @ [Output (Processed success_count (length selected_files))]
                             @ (if mode = Folder \<and> 0 < success_count then [Output SavedToFolder]
                                else [])
                  in (case inputs1 of
                        [] \<Rightarrow> (ev, Crash EOFError, [], d')
                      | another # inputs2 \<Rightarrow>
                          if \<not> affirms L another then
                            (ev @ [Input AskContinue another, Output WorkFinished], Stop, inputs2, d')
                          else (ev @ [Input AskContinue another], Again, inputs2, d')))))"

text \<open>
  \<open>Path("books-upgrade").mkdir(exist_ok=True)\<close> raises when a regular file has that name.
\<close>

definition make_output_dir :: "output_mode \<Rightarrow> disk \<Rightarrow> error + (pure_path option \<times> event list)"
  where
  "make_output_dir mode d =
     (case mode of
        Replace \<Rightarrow> Inr (None, [])
      | Folder \<Rightarrow>
          if d (Path ''books-upgrade'') \<noteq> None then Inl FileExistsError
          else Inr (Some (Path ''books-upgrade''), [Output FolderCreated]))"

definition select_and_process ::
  "pylib \<Rightarrow> string list \<Rightarrow> modification \<Rightarrow> int \<Rightarrow> output_mode \<Rightarrow> string list \<Rightarrow> disk
     \<Rightarrow> event list \<times> control \<times> string list \<times> disk" where
  "select_and_process L epub_files mt margin_size mode inputs d =
     (case make_output_dir mode d of
        Inl e \<Rightarrow> ([], Crash e, inputs, d)
      | Inr (output_dir, ev0) \<Rightarrow>
          (case ask_file_selection L epub_files inputs of
             (ev1, Inl e, inputs1) \<Rightarrow> (ev0 @ ev1, Crash e, inputs1, d)
           | (ev1, Inr None, inputs1) \<Rightarrow> (ev0 @ ev1, Again, inputs1, d)
           | (ev1, Inr (Some selected_files), inputs1) \<Rightarrow>
               (case confirm_and_process L mt margin_size mode output_dir selected_files inputs1 d
                of (ev2, c, inputs2, d') \<Rightarrow> (ev0 @ ev1 @ ev2, c, inputs2, d'))))"

definition warn_and_continue ::
  "pylib \<Rightarrow> string list \<Rightarrow> modification \<Rightarrow> int \<Rightarrow> output_mode \<Rightarrow> string list \<Rightarrow> disk
     \<Rightarrow> event list \<times> control \<times> string list \<times> disk" where
  "warn_and_continue L epub_files mt margin_size mode inputs d =
     (if mode = Replace then
        (case inputs of
           [] \<Rightarrow> ([], Crash EOFError, [], d)
         | confirm_replace # inputs1 \<Rightarrow>
             if \<not> affirms_overwrite L confirm_replace then
               ([Input AskConfirmReplace confirm_replace, Output OverwriteCancelled], Again,
                inputs1, d)
             else
               (case select_and_process L epub_files mt margin_size mode inputs1 d of
                  (ev, c, inputs2, d') \<Rightarrow>
                    (Input AskConfirmReplace confirm_replace # ev, c, inputs2, d')))
      else select_and_process L epub_files mt margin_size mode inputs d)"

definition menu_round ::
  "pylib \<Rightarrow> string list \<Rightarrow> string list \<Rightarrow> disk \<Rightarrow> event list \<times> control \<times> string list \<times> disk"
  where
  "menu_round L epub_files inputs d =
     (case ask_modification_type L inputs of
        (ev1, Inl e, inputs1) \<Rightarrow> (ev1, Crash e, inputs1, d)
      | (ev1, Inr None, inputs1) \<Rightarrow> (ev1 @ [Output WorkFinished], Stop, inputs1, d)
      | (ev1, Inr (Some mt), inputs1) \<Rightarrow>
          (case (if mt = Margins \<or> mt = Both then ask_margin_size L inputs1
                 else ([], Inr 20, inputs1)) of
             (ev2, Inl e, inputs2) \<Rightarrow> (ev1 @ ev2, Crash e, inputs2, d)
           | (ev2, Inr margin_size, inputs2) \<Rightarrow>
               (case ask_output_mode L inputs2 of
                  (ev3, Inl e, inputs3) \<Rightarrow> (ev1 @ ev2 @ ev3, Crash e, inputs3, d)
                | (ev3, Inr None, inputs3) \<Rightarrow> (ev1 @ ev2 @ ev3, Again, inputs3, d)
                | (ev3, Inr (Some mode), inputs3) \<Rightarrow>
                    (case warn_and_continue L epub_files mt margin_size mode inputs3 d of
                       (ev4, c, inputs4, d') \<Rightarrow> (ev1 @ ev2 @ ev3 @ ev4, c, inputs4, d')))))"

text \<open>
  \<open>while True\<close>: every pass that ends in \<open>continue\<close> has read at least one line, so the
  loop ends when the input does. The lemmas before the definition say so.
\<close>

lemma ask_modification_type_shorter:
  "ask_modification_type L inputs = (ev, Inr r, rest) \<Longrightarrow> length rest < length inputs"
  by (induction inputs arbitrary: ev) (auto simp: Let_def split: if_splits prod.splits)

lemma ask_margin_size_le:
  "ask_margin_size L inputs = (ev, r, rest) \<Longrightarrow> length rest \<le> length inputs"
  by (induction inputs arbitrary: ev) (fastforce simp: Let_def split: if_splits prod.splits option.splits)+

lemma ask_output_mode_le:
  "ask_output_mode L inputs = (ev, r, rest) \<Longrightarrow> length rest \<le> length inputs"
  by (induction inputs arbitrary: ev) (fastforce simp: Let_def split: if_splits prod.splits)+

lemma ask_file_selection_le:
  "ask_file_selection L epub_files inputs = (ev, r, rest) \<Longrightarrow> length rest \<le> length inputs"
  by (induction inputs arbitrary: ev)
    (fastforce simp: Let_def split: if_splits prod.splits option.splits)+

lemma confirm_and_process_le:
  "confirm_and_process L mt m mode od sel inputs d = (ev, c, rest, d') \<Longrightarrow> length rest \<le> length inputs"
  by (auto simp: confirm_and_process_def Let_def split: list.splits if_splits prod.splits)

lemma select_and_process_le:
  "select_and_process L epub_files mt m mode inputs d = (ev, c, rest, d') \<Longrightarrow>
     length rest \<le> length inputs"
  by (auto simp: select_and_process_def split: sum.splits prod.splits option.splits
      dest!: ask_file_selection_le confirm_and_process_le)

lemma warn_and_continue_le:
  "warn_and_continue L epub_files mt m mode inputs d = (ev, c, rest, d') \<Longrightarrow>
     length rest \<le> length inputs"
  by (auto simp: warn_and_continue_def split: list.splits if_splits prod.splits
      dest!: select_and_process_le)

lemma menu_round_shorter:
  assumes "menu_round L epub_files inputs d = (ev, Again, rest, d')"
  shows "length rest < length inputs"
proof -
  from assms obtain ev1 mt inputs1 where
    a1: "ask_modification_type L inputs = (ev1, Inr (Some mt), inputs1)"
    by (auto simp: menu_round_def split: prod.splits sum.splits option.splits)
  then have l1: "length inputs1 < length inputs"
    by (rule ask_modification_type_shorter)
  obtain ev2 r2 inputs2 where
    a2: "(if mt = Margins \<or> mt = Both then ask_margin_size L inputs1 else ([], Inr 20, inputs1))
           = (ev2, r2, inputs2)"
    by (metis prod_cases3)
  then have l2: "length inputs2 \<le> length inputs1"
    by (auto split: if_splits dest: ask_margin_size_le)
  from assms a1 a2 obtain margin_size where r2: "r2 = Inr margin_size"
    by (auto simp: menu_round_def split: sum.splits)
  obtain ev3 r3 inputs3 where a3: "ask_output_mode L inputs2 = (ev3, r3, inputs3)"
    by (metis prod_cases3)
  then have l3: "length inputs3 \<le> length inputs2"
    by (rule ask_output_mode_le)
  from assms a1 a2 r2 a3 have "length rest \<le> length inputs3"
    by (auto simp: menu_round_def split: sum.splits option.splits prod.splits
        dest: warn_and_continue_le)
  with l1 l2 l3 show ?thesis by simp
qed

function main_loop ::
  "pylib \<Rightarrow> string list \<Rightarrow> string list \<Rightarrow> disk \<Rightarrow> event list \<times> outcome \<times> disk" where
  "main_loop L epub_files inputs d =
     (case menu_round L epub_files inputs d of
        (ev, Again, rest, d') \<Rightarrow>
          (case main_loop L epub_files rest d' of
             (ev', result, d'') \<Rightarrow> (ev @ ev', result, d''))
      | (ev, Stop, rest, d') \<Rightarrow> (ev, Return, d')
      | (ev, Crash e, rest, d') \<Rightarrow> (ev, Uncaught e, d'))"
  by pat_completeness auto
termination
  by (relation "measure (\<lambda>(L, epub_files, inputs, d). length inputs)")
    (auto dest: menu_round_shorter [OF sym])

declare main_loop.simps [simp del]

definition main_interactive :: "pylib \<Rightarrow> string list \<Rightarrow> disk \<Rightarrow> event list \<times> outcome \<times> disk" where
  "main_interactive L inputs d =
     (let epub_files = get_epub_files_interactive L
      in if epub_files = [] then ([Output NoEpubFound], Exit 1, d)
         else main_loop L epub_files inputs d)"

subsection \<open>The overwrite gate\<close>

text \<open>
  A monitor over the events of a run. It holds \<open>Confirmed\<close> after an affirming answer at
  the overwrite prompt and \<open>Declined\<close> after any other answer there; the menu prompt
  resets it. It rejects a call of \<open>process_epub\<close> in replace mode unless it holds
  \<open>Confirmed\<close>, and after \<open>Declined\<close> it accepts only messages and the menu prompt.
\<close>

datatype gate = NotAsked | Confirmed | Declined

fun gate_step :: "pylib \<Rightarrow> gate \<Rightarrow> event \<Rightarrow> gate option" where
  "gate_step L g (Input p answer) =
     (if p = AskModification then Some NotAsked
      else if g = Declined then None
      else if p = AskConfirmReplace then
        Some (if affirms_overwrite L answer then Confirmed else Declined)
      else Some g)"
| "gate_step L g (Output n) = Some g"
| "gate_step L g (Process epub_file mt margin_size mode) =
     (if g = Declined then None
      else if mode = Replace \<and> g \<noteq> Confirmed then None
      else Some g)"

fun gate_run :: "pylib \<Rightarrow> gate \<Rightarrow> event list \<Rightarrow> gate option" where
  "gate_run L g [] = Some g"
| "gate_run L g (e # es) = (case gate_step L g e of None \<Rightarrow> None | Some g' \<Rightarrow> gate_run L g' es)"

subsection \<open>A library for examples\<close>

text \<open>
  Stand-ins for the library functions on ASCII text, and a working directory given by
  the list of its file names; they are used to evaluate the programs on examples.
\<close>

definition ascii_lower :: "string \<Rightarrow> string" where
  "ascii_lower s =
     map (\<lambda>c. if (65::nat) \<le> of_char c \<and> of_char c \<le> (90::nat)
               then char_of (of_char c + (32::nat)) else c) s"

definition ascii_space :: "char \<Rightarrow> bool" where
  "ascii_space c = (c \<in> set [CHR '' '', CHR 0x09, CHR 0x0A, CHR 0x0B, CHR 0x0C, CHR 0x0D])"

definition ascii_strip :: "string \<Rightarrow> string" where
  "ascii_strip s = rev (dropWhile ascii_space (rev (dropWhile ascii_space s)))"

definition ascii_int :: "string \<Rightarrow> int option" where
  "ascii_int s =
     (let t = ascii_strip s;
          (neg, body) =
            (case t of
               [] \<Rightarrow> (False, t)
             | c # cs \<Rightarrow> if c = CHR ''-'' then (True, cs) else if c = CHR ''+'' then (False, cs) else (False, t))
      in if body \<noteq> [] \<and> list_all is_digit body
         then Some (if neg then - int (nat_of_digits body) else int (nat_of_digits body))
         else None)"

definition glob_in :: "string list \<Rightarrow> string \<Rightarrow> string list" where
  "glob_in listing pattern =
     (if pattern = ''*.epub'' then filter (\<lambda>f. suffix ''.epub'' f \<and> take 1 f \<noteq> ''.'') listing
      else if CHR ''*'' \<notin> set pattern \<and> pattern \<in> set listing then [pattern]
      else [])"

definition sample_lib :: "string list \<Rightarrow> pylib" where
  "sample_lib listing =
     \<lparr>py_int = ascii_int, py_lower = ascii_lower, py_strip = ascii_strip,
      py_glob = glob_in listing\<rparr>"

definition not_a_zip_disk :: disk where
  "not_a_zip_disk = [Path ''a.epub'' \<mapsto> Epub sample_epub, Path ''b.epub'' \<mapsto> NotAnArchive,
                     Path ''c.epub'' \<mapsto> Epub epub_without_css]"

subsection \<open>Reading the outcome of a command-line run\<close>

text \<open>
  A file is being processed when \<open>process_epub\<close> prints its first line. The files that
  \<open>main\<close> resolves from its parsed arguments are the \<open>unique_files\<close> of the source, or none
  when discovery already ends the run.
\<close>

fun is_processing :: "message \<Rightarrow> bool" where
  "is_processing (Processing epub_file margin_size) = True"
| "is_processing other = False"

definition files_to_process :: "pylib \<Rightarrow> string list \<Rightarrow> disk \<Rightarrow> string list \<Rightarrow> string list" where
  "files_to_process L argv d epub_files =
     (case resolve_files L argv epub_files of
        Inl stop \<Rightarrow> []
      | Inr (found, msgs) \<Rightarrow> fst (filter_existing L d (remdups found)))"

subsection \<open>Reading the outcome of a batch\<close>

text \<open>
  The batch loop records, for every file in turn, the exception that \<open>except Exception\<close>
  caught, or none: a file succeeded when \<open>process_epub\<close> returned, and failed when it
  raised.
\<close>

definition succeeded :: "(string \<times> error option) list \<Rightarrow> string list" where
  "succeeded results = map fst (filter (\<lambda>(epub_file, err). err = None) results)"

definition failed :: "(string \<times> error option) list \<Rightarrow> string list" where
  "failed results = map fst (filter (\<lambda>(epub_file, err). err \<noteq> None) results)"

text \<open>
  The two \<open>process_epub\<close> differ in the output path and in the fragment only: each opens the
  source, rewrites it, and writes the result to the output path. \<open>process_with\<close> is that
  common form, and the disk after the first \<open>k\<close> files of a batch is \<open>disk_after\<close>.
\<close>

definition process_with ::
  "(string \<Rightarrow> pure_path option) \<Rightarrow> string \<Rightarrow> string \<Rightarrow> disk \<Rightarrow> error + disk" where
  "process_with output_path css_content epub_path d =
     (case output_path epub_path of
        None \<Rightarrow> Inl TypeError
      | Some p \<Rightarrow>
          (case open_epub d (Path epub_path) of
             Inl err \<Rightarrow> Inl err
           | Inr a \<Rightarrow>
               (case rewrite_archive css_content a of
                  Inl err \<Rightarrow> Inl err
                | Inr out \<Rightarrow> Inr (d(p \<mapsto> Epub out)))))"

definition disk_after ::
  "(string \<Rightarrow> disk \<Rightarrow> error + disk) \<Rightarrow> string list \<Rightarrow> disk \<Rightarrow> nat \<Rightarrow> disk" where
  "disk_after process files d k = snd (snd (run_batch process (take k files) 0 d))"

subsection \<open>Reading the events of an interactive run\<close>

fun is_menu_prompt :: "event \<Rightarrow> bool" where
  "is_menu_prompt (Input p answer) = (p = AskModification)"
| "is_menu_prompt other = False"

fun is_output :: "event \<Rightarrow> bool" where
  "is_output (Output n) = True"
| "is_output other = False"

section \<open>Properties of the CSS fragments\<close>

text \<open>
  Claim C5. For every integer margin size the combined fragment is the margin fragment
  followed by the hyphenation fragment:
  \<open>get_combined_css size = get_margin_css size @ get_no_hyphenation_css\<close>.
\<close>

theorem combined_css_is_margin_then_hyphenation:
  "get_combined_css margin_size = get_margin_css margin_size @ get_no_hyphenation_css"
  by (simp add: get_combined_css_def get_margin_css_def get_no_hyphenation_css_def)

lemma digit_char_is_digit: "is_digit (digit_char d)"
  by (simp add: is_digit_def digit_char_def)

lemma str_nat_digits: "\<forall>c \<in> set (str_nat n). is_digit c"
  by (induction n rule: str_nat.induct) (subst str_nat.simps, auto simp: digit_char_is_digit)

lemma str_nat_nonempty: "str_nat n \<noteq> []"
  by (subst str_nat.simps) simp

lemma digit_val_digit_char: "d < 10 \<Longrightarrow> digit_val (digit_char d) = d"
  by (auto simp: digit_val_def digit_char_def)

lemma nat_of_digits_snoc: "nat_of_digits (ds @ [c]) = 10 * nat_of_digits ds + digit_val c"
  by (simp add: nat_of_digits_def)

lemma nat_of_digits_str_nat: "nat_of_digits (str_nat n) = n"
proof (induction n rule: str_nat.induct)
  case (1 n)
  show ?case
  proof (cases "n < 10")
    case True
    then show ?thesis
      by (subst str_nat.simps) (simp add: nat_of_digits_def digit_val_digit_char)
  next
    case False
    with 1 have "nat_of_digits (str_nat (n div 10)) = n div 10" by simp
    with False show ?thesis
      by (subst str_nat.simps) (simp add: nat_of_digits_snoc digit_val_digit_char)
  qed
qed

lemma text_lines_nonempty: "text_lines s \<noteq> []"
  by (induction s) (auto split: list.splits)

lemma text_lines_append:
  "CHR 0x0A \<notin> set xs \<Longrightarrow> text_lines (xs @ ys) = (xs @ hd (text_lines ys)) # tl (text_lines ys)"
proof (induction xs)
  case Nil
  then show ?case using text_lines_nonempty [of ys] by simp
next
  case (Cons x xs)
  then show ?case by auto
qed

lemma newline_not_digit: "\<not> is_digit (CHR 0x0A)"
  by (simp add: is_digit_def)

lemma newline_notin_str_nat: "CHR 0x0A \<notin> set (str_nat n)"
  using str_nat_digits [of n] newline_not_digit by blast

lemma newline_notin_str_int: "CHR 0x0A \<notin> set (str_int n)"
  by (simp add: str_int_def newline_notin_str_nat)

lemma margin_css_lines:
  "text_lines (get_margin_css n) =
     ['''', ''/* '' @ ru_reduced_margins_for @ '' Kindle */'', ''html, body {'',
      css_declaration ''margin-left'' (''-'' @ str_int n @ ''px''),
      css_declaration ''margin-right'' (''-'' @ str_int n @ ''px''),
      css_declaration ''padding'' ''0'', ''}'', '''']"
  by (simp add: get_margin_css_def css_declaration_def ru_reduced_margins_for_def
      text_lines_append [OF newline_notin_str_int])

lemma declaration_value_of_line:
  assumes "find (prefix (''    '' @ prop @ '': '')) (text_lines css) = Some (css_declaration prop v)"
  shows "declaration_value prop css = Some v"
proof -
  have "css_declaration prop v = (''    '' @ prop @ '': '') @ (v @ '' !important;'')"
    by (simp add: css_declaration_def)
  moreover have "length (''    '' @ prop @ '': '') = length prop + 6"
    by simp
  ultimately have "drop (length prop + 6) (css_declaration prop v) = v @ '' !important;''"
    by (metis append_eq_conv_conj)
  moreover have "suffix '' !important;'' (v @ '' !important;'')"
    by (rule suffix_appendI) simp
  moreover have "take (length (v @ '' !important;'') - 12) (v @ '' !important;'') = v"
    by simp
  ultimately show ?thesis
    using assms by (simp add: declaration_value_def Let_def del: append.simps)
qed

lemma prefix_css_declaration: "prefix (''    '' @ prop @ '': '') (css_declaration prop v)"
  by (simp add: css_declaration_def)

lemma margin_left_value:
  "declaration_value ''margin-left'' (get_margin_css n) = Some (''-'' @ str_int n @ ''px'')"
proof (rule declaration_value_of_line)
  show "find (prefix (''    '' @ ''margin-left'' @ '': '')) (text_lines (get_margin_css n)) =
          Some (css_declaration ''margin-left'' (''-'' @ str_int n @ ''px''))"
    using prefix_css_declaration [of "''margin-left''" "''-'' @ str_int n @ ''px''"]
    by (simp add: margin_css_lines ru_reduced_margins_for_def)
qed

lemma margin_right_value:
  "declaration_value ''margin-right'' (get_margin_css n) = Some (''-'' @ str_int n @ ''px'')"
proof (rule declaration_value_of_line)
  have "\<not> prefix (''    '' @ ''margin-right'' @ '': '') (css_declaration ''margin-left'' w)" for w
    by (simp add: css_declaration_def)
  then show "find (prefix (''    '' @ ''margin-right'' @ '': '')) (text_lines (get_margin_css n)) =
          Some (css_declaration ''margin-right'' (''-'' @ str_int n @ ''px''))"
    using prefix_css_declaration [of "''margin-right''" "''-'' @ str_int n @ ''px''"]
    by (simp add: margin_css_lines ru_reduced_margins_for_def)
qed

lemma padding_value: "declaration_value ''padding'' (get_margin_css n) = Some ''0''"
proof (rule declaration_value_of_line)
  have "\<not> prefix (''    '' @ ''padding'' @ '': '') (css_declaration ''margin-left'' w)"
       "\<not> prefix (''    '' @ ''padding'' @ '': '') (css_declaration ''margin-right'' w)" for w
    by (simp_all add: css_declaration_def)
  then show "find (prefix (''    '' @ ''padding'' @ '': '')) (text_lines (get_margin_css n)) =
          Some (css_declaration ''padding'' ''0'')"
    using prefix_css_declaration [of "''padding''" "''0''"]
    by (simp add: margin_css_lines ru_reduced_margins_for_def)
qed

lemma takeWhile_digits_str_nat: "takeWhile is_digit (str_nat m @ ''px'') = str_nat m"
  using str_nat_digits [of m] by (simp add: takeWhile_append is_digit_def)

lemma dropWhile_digits_str_nat: "dropWhile is_digit (str_nat m @ ''px'') = ''px''"
  using str_nat_digits [of m] by (simp add: dropWhile_append is_digit_def)

lemma css_px_negated: "0 \<le> n \<Longrightarrow> css_px (''-'' @ str_int n @ ''px'') = Some (- n)"
  by (simp add: css_px_def str_int_def takeWhile_digits_str_nat dropWhile_digits_str_nat
      str_nat_nonempty nat_of_digits_str_nat)

lemma str_int_20: "str_int 20 = ''20''"
  by (simp add: str_int_def str_nat.simps digit_char_def)

text \<open>
  Claim C4 (as amended). The margin fragment is one rule on the selector \<open>html, body\<close>
  with three declarations, each carrying \<open>!important\<close>: \<open>margin-left\<close> and
  \<open>margin-right\<close> with the value made of a fixed minus sign, the decimal text of the size
  and \<open>px\<close>, and \<open>padding: 0\<close>. For every non-negative size that value is the length
  of minus size pixels; for size 20 the two lines read \<open>margin-left: -20px\<close> and
  \<open>margin-right: -20px\<close>.
\<close>

theorem margin_css_declarations:
  "text_lines (get_margin_css n) =
     ['''', ''/* '' @ ru_reduced_margins_for @ '' Kindle */'', ''html, body {'',
      css_declaration ''margin-left'' (''-'' @ str_int n @ ''px''),
      css_declaration ''margin-right'' (''-'' @ str_int n @ ''px''),
      css_declaration ''padding'' ''0'', ''}'', '''']
   \<and> declaration_value ''margin-left'' (get_margin_css n) = Some (''-'' @ str_int n @ ''px'')
   \<and> declaration_value ''margin-right'' (get_margin_css n) = Some (''-'' @ str_int n @ ''px'')
   \<and> declaration_value ''padding'' (get_margin_css n) = Some ''0''
   \<and> (0 \<le> n \<longrightarrow> declared_px ''margin-left'' (get_margin_css n) = Some (- n)
              \<and> declared_px ''margin-right'' (get_margin_css n) = Some (- n))
   \<and> text_lines (get_margin_css 20) ! 3 = ''    margin-left: -20px !important;''
   \<and> text_lines (get_margin_css 20) ! 4 = ''    margin-right: -20px !important;''"
proof -
  have "text_lines (get_margin_css 20) ! 3 = ''    margin-left: -20px !important;''"
       "text_lines (get_margin_css 20) ! 4 = ''    margin-right: -20px !important;''"
    by (simp_all add: margin_css_lines css_declaration_def str_int_20)
  then show ?thesis
    by (simp add: margin_css_lines margin_left_value margin_right_value padding_value
        declared_px_def css_px_negated del: append.simps)
qed

theorem margin_css_declarations_witness:
  "(0::int) \<le> 20
   \<and> declared_px ''margin-left'' (get_margin_css 20) = Some (- 20)
   \<and> declared_px ''margin-right'' (get_margin_css 20) = Some (- 20)
   \<and> declaration_value ''margin-left'' (get_margin_css 20) = Some ''-20px''
   \<and> declaration_value ''margin-right'' (get_margin_css 20) = Some ''-20px''
   \<and> declaration_value ''padding'' (get_margin_css 20) = Some ''0''"
  using margin_css_declarations [of 20] by (simp add: str_int_20)

text \<open>
  Claim C4 as stated, for every margin size, fails at a negative size: for size \<open>-5\<close> the
  declared value is the text \<open>--5px\<close>, which is not a length, and not 5 pixels.
\<close>

theorem margin_css_negative_size_counterexample:
  "declaration_value ''margin-left'' (get_margin_css (- 5)) = Some ''--5px''
   \<and> declared_px ''margin-left'' (get_margin_css (- 5)) \<noteq> Some (- (- 5))"
  by (simp add: margin_left_value declared_px_def str_int_def str_nat.simps digit_char_def
      css_px_def is_digit_def)

section \<open>Properties of the archive transformation\<close>

lemma in_ancestors: "r \<in> set (ancestors p) \<longleftrightarrow> r \<noteq> [] \<and> strict_prefix r p"
proof
  assume "r \<in> set (ancestors p)"
  then obtain n where n: "1 \<le> n" "n < length p" "r = take n p"
    by (auto simp: ancestors_def)
  then have "prefix r p" "length r = n"
    by (simp_all add: take_is_prefix)
  with n show "r \<noteq> [] \<and> strict_prefix r p"
    by (auto simp: strict_prefix_def)
next
  assume a: "r \<noteq> [] \<and> strict_prefix r p"
  then obtain z where z: "p = r @ z" "z \<noteq> []"
    by (auto simp: strict_prefix_def prefix_def)
  then have "r = take (length r) p" "1 \<le> length r" "length r < length p"
    using a by (auto simp: Suc_le_eq)
  then show "r \<in> set (ancestors p)"
    unfolding ancestors_def by (metis (no_types, lifting) atLeastLessThan_iff image_eqI set_map set_upt)
qed

lemma file_in_the_way_iff:
  "file_in_the_way fs p \<longleftrightarrow> (\<exists>r. r \<noteq> [] \<and> strict_prefix r p \<and> is_file fs r)"
  by (auto simp: file_in_the_way_def list_ex_iff in_ancestors)

lemma is_dir_iff:
  "is_dir fs p \<longleftrightarrow> p = [] \<or> map_of fs p = Some Directory \<or> (\<exists>q \<in> fst ` set fs. strict_prefix p q)"
  by (auto simp: is_dir_def list_ex_iff)

lemma is_file_iff: "is_file fs p \<longleftrightarrow> (\<exists>c. map_of fs p = Some (RegularFile c))"
  by (auto simp: is_file_def split: option.splits node.splits)

lemma find_css_file_Some_iff:
  "find_css_file fs = Some p \<longleftrightarrow>
     (\<exists>i<length possible_paths. p = possible_paths ! i \<and> path_exists fs p \<and>
        (\<forall>j<i. \<not> path_exists fs (possible_paths ! j)))"
  unfolding find_css_file_def find_Some_iff by blast

lemma find_css_file_None_iff:
  "find_css_file fs = None \<longleftrightarrow> (\<forall>p \<in> set possible_paths. \<not> path_exists fs p)"
  unfolding find_css_file_def find_None_iff by blast

lemma find_css_file_in_paths: "find_css_file fs = Some p \<Longrightarrow> p \<in> set possible_paths"
  unfolding find_css_file_def by (auto simp: find_Some_iff)

lemma map_of_update_other: "q \<noteq> p \<Longrightarrow> map_of (AList.update p v fs) q = map_of fs q"
  by (simp add: update_conv')

lemma map_of_update_same: "map_of (AList.update p v fs) p = Some v"
  by (simp add: update_conv')

lemma map_of_snoc_other: "q \<noteq> p \<Longrightarrow> map_of (fs @ [(p, v)]) q = map_of fs q"
  by (auto simp: map_add_def split: option.splits)

lemma makedirs_map_of:
  "makedirs fs p = Inr fs' \<Longrightarrow> q \<noteq> p \<Longrightarrow> map_of fs' q = map_of fs q"
  by (auto simp: makedirs_def map_add_def split: if_splits option.splits)

lemma makedirs_keeps_files:
  "makedirs fs p = Inr fs' \<Longrightarrow> map_of fs q = Some (RegularFile c) \<Longrightarrow> map_of fs' q = Some (RegularFile c)"
  by (auto simp: makedirs_def map_add_def split: if_splits)

lemma write_file_map_of:
  "write_file fs p c = Inr fs' \<Longrightarrow> map_of fs' = (map_of fs)(p \<mapsto> RegularFile c)"
  by (auto simp: write_file_def update_conv' split: if_splits)

lemma append_file_map_of:
  "append_file fs p c = Inr fs' \<Longrightarrow>
     map_of fs' = (map_of fs)(p \<mapsto> RegularFile ((case map_of fs p of Some (RegularFile old) \<Rightarrow> old | _ \<Rightarrow> []) @ c))"
  by (auto simp: append_file_def update_conv' split: if_splits)

lemma getinfo_filename: "getinfo a member_name = Some member \<Longrightarrow> filename member = member_name"
  by (auto simp: getinfo_def find_Some_iff)

lemma getinfo_in_namelist: "getinfo a member_name = Some member \<Longrightarrow> member_name \<in> set (namelist a)"
  by (auto simp: getinfo_def namelist_def find_Some_iff in_set_conv_nth)
    (metis length_rev nth_mem set_rev image_eqI)

lemma arcname_mimetype: "arcname ''mimetype'' = [''mimetype'']"
  by code_simp

lemma extract_member_other:
  "extract_member fs member = Inr fs' \<Longrightarrow> arcname (filename member) \<noteq> p \<Longrightarrow>
     map_of fs' p = map_of fs p"
proof -
  assume e: "extract_member fs member = Inr fs'" and n: "arcname (filename member) \<noteq> p"
  show ?thesis
  proof (cases "member_is_dir member")
    case True
    with e have "makedirs fs (arcname (filename member)) = Inr fs'"
      by (simp add: extract_member_def)
    then show ?thesis using n by (rule makedirs_map_of [OF _ not_sym])
  next
    case False
    with e have "write_file fs (arcname (filename member)) (data member) = Inr fs'"
      by (simp add: extract_member_def)
    then show ?thesis using n by (auto dest: write_file_map_of)
  qed
qed

lemma extract_member_file:
  "extract_member fs member = Inr fs' \<Longrightarrow> \<not> member_is_dir member \<Longrightarrow>
     map_of fs' (arcname (filename member)) = Some (RegularFile (data member))"
  by (auto simp: extract_member_def Let_def dest: write_file_map_of)

lemma extract_names_other:
  "extract_names a fs names = Inr fs' \<Longrightarrow> \<forall>n \<in> set names. arcname n \<noteq> p \<Longrightarrow>
     map_of fs' p = map_of fs p"
proof (induction names arbitrary: fs)
  case Nil
  then show ?case by simp
next
  case (Cons n names)
  from Cons.prems(1) obtain member fs1 where g: "getinfo a n = Some member"
    and s1: "extract_member fs member = Inr fs1"
    and s2: "extract_names a fs1 names = Inr fs'"
    by (auto split: option.splits sum.splits)
  from g have "filename member = n" by (rule getinfo_filename)
  with Cons.prems(2) have "arcname (filename member) \<noteq> p" by simp
  with s1 have "map_of fs1 p = map_of fs p" by (rule extract_member_other)
  moreover from Cons.IH [OF s2] Cons.prems(2) have "map_of fs' p = map_of fs1 p" by simp
  ultimately show ?case by simp
qed

text \<open>
  A file member whose place in the directory no member of another name shares is on
  disk, after the extraction, with the bytes that \<open>getinfo\<close> gives for its name.
\<close>

lemma extract_names_reads:
  assumes "extract_names a fs names = Inr fs'"
    and "member_name \<in> set names"
    and "getinfo a member_name = Some member"
    and "\<not> member_is_dir member"
    and "\<forall>n \<in> set names. arcname n = arcname member_name \<longrightarrow> n = member_name"
  shows "map_of fs' (arcname member_name) = Some (RegularFile (data member))"
  using assms(1,2,5)
proof (induction names arbitrary: fs)
  case Nil
  then show ?case by simp
next
  case (Cons n names)
  from Cons.prems(1) obtain m fs1 where g: "getinfo a n = Some m"
    and s1: "extract_member fs m = Inr fs1"
    and s2: "extract_names a fs1 names = Inr fs'"
    by (auto split: option.splits sum.splits)
  have only: "\<forall>x \<in> set names. arcname x = arcname member_name \<longrightarrow> x = member_name"
    using Cons.prems(3) by simp
  show ?case
  proof (cases "member_name \<in> set names")
    case True
    then show ?thesis using Cons.IH [OF s2 _ only] by simp
  next
    case False
    with Cons.prems(2) have n: "n = member_name" by simp
    with g assms(3) have m: "m = member" by simp
    from assms(3) have "filename member = member_name" by (rule getinfo_filename)
    with s1 m assms(4) have "map_of fs1 (arcname member_name) = Some (RegularFile (data member))"
      using extract_member_file [of fs member fs1] by simp
    moreover from False only have "\<forall>x \<in> set names. arcname x \<noteq> arcname member_name"
      by blast
    with s2 have "map_of fs' (arcname member_name) = map_of fs1 (arcname member_name)"
      by (rule extract_names_other)
    ultimately show ?thesis by simp
  qed
qed

lemma extractall_reads:
  assumes "extractall a = Inr fs"
    and "zip_read a member_name = Some c"
    and "\<not> suffix ''/'' member_name"
    and "\<forall>member \<in> set a. arcname (filename member) = arcname member_name
           \<longrightarrow> filename member = member_name"
  shows "map_of fs (arcname member_name) = Some (RegularFile c)"
proof -
  from assms(2) obtain member where g: "getinfo a member_name = Some member" and c: "c = data member"
    by (auto simp: zip_read_def)
  from g have f: "filename member = member_name" by (rule getinfo_filename)
  from g have i: "member_name \<in> set (namelist a)" by (rule getinfo_in_namelist)
  have d: "\<not> member_is_dir member"
    using assms(3) f by (simp add: member_is_dir_def)
  have o: "\<forall>n \<in> set (namelist a). arcname n = arcname member_name \<longrightarrow> n = member_name"
    using assms(4) by (auto simp: namelist_def)
  from assms(1) have "extract_names a [] (namelist a) = Inr fs"
    by (simp add: extractall_def)
  from extract_names_reads [OF this i g d o] c show ?thesis by simp
qed

lemma locate_or_create_css_other:
  assumes "locate_or_create_css fs = Inr (cp, fs1)"
  shows "cp \<in> set possible_paths"
    and "q \<noteq> [''OPS'', ''style.css''] \<Longrightarrow> q \<noteq> [''OPS''] \<Longrightarrow> map_of fs1 q = map_of fs q"
proof -
  show "cp \<in> set possible_paths"
    using assms
    by (auto simp: locate_or_create_css_def possible_paths_def
        dest: find_css_file_in_paths split: option.splits sum.splits)
  show "map_of fs1 q = map_of fs q" if "q \<noteq> [''OPS'', ''style.css'']" "q \<noteq> [''OPS'']"
    using assms that
    by (auto simp: locate_or_create_css_def
        dest!: write_file_map_of makedirs_map_of [where q = q] split: option.splits sum.splits)
qed

lemma mimetype_not_css_path: "[''mimetype''] \<notin> set possible_paths"
  by (simp add: possible_paths_def)

lemma join_path_single: "CHR ''/'' \<notin> set (join_path p) \<Longrightarrow> p = [] \<or> p = [join_path p]"
  by (cases p rule: join_path.cases) auto

lemma write_other_files_names:
  "member \<in> set (write_other_files fs) \<Longrightarrow> filename member \<noteq> ''mimetype''"
proof
  assume m: "member \<in> set (write_other_files fs)" and f: "filename member = ''mimetype''"
  from m obtain p c where p: "member = ZipInfo (join_path p) ZIP_DEFLATED c"
    "basename p \<noteq> ''mimetype''"
    by (auto simp: write_other_files_def)
  with f have j: "join_path p = ''mimetype''" by simp
  then have "CHR ''/'' \<notin> set (join_path p)" by simp
  then have "p = [] \<or> p = [join_path p]" by (rule join_path_single)
  with j have "p = [''mimetype'']" by auto
  with p(2) show False by (simp add: basename_def)
qed

lemma build_epub_mimetype:
  assumes "map_of fs [''mimetype''] = Some (RegularFile c)"
  shows "build_epub fs = ZipInfo ''mimetype'' ZIP_STORED c # write_other_files fs"
  using assms by (simp add: build_epub_def write_mimetype_def path_exists_def is_file_def)

text \<open>
  Claim C2 (as amended). When the source archive has a member named \<open>mimetype\<close>, and no
  member of another name is extracted to the same place (as \<open>./mimetype\<close>, \<open>/mimetype\<close> and
  \<open>../mimetype\<close> are), every archive that \<open>process_epub\<close> writes from it begins with the
  member \<open>mimetype\<close>, stored without compression, with the bytes that the source has
  under that name; no other member of the output has that name.
\<close>

theorem mimetype_first_and_stored:
  assumes "rewrite_archive css_content a = Inr out"
    and "zip_read a ''mimetype'' = Some c"
    and "\<forall>member \<in> set a. arcname (filename member) = [''mimetype'']
           \<longrightarrow> filename member = ''mimetype''"
  shows "out \<noteq> [] \<and> hd out = ZipInfo ''mimetype'' ZIP_STORED c
         \<and> list_all (\<lambda>member. filename member \<noteq> ''mimetype'') (tl out)"
proof -
  from assms(1) obtain fs cp fs1 fs2 where
    x: "extractall a = Inr fs" and l: "locate_or_create_css fs = Inr (cp, fs1)" and
    ap: "append_file fs1 cp css_content = Inr fs2" and out: "out = build_epub fs2"
    by (auto simp: rewrite_archive_def split: sum.splits prod.splits)
  have "\<not> suffix ''/'' ''mimetype''"
    by (auto simp: suffix_def)
  with x assms(2,3) have "map_of fs (arcname ''mimetype'') = Some (RegularFile c)"
    using extractall_reads [of a fs "''mimetype''" c] by (simp add: arcname_mimetype)
  then have "map_of fs [''mimetype''] = Some (RegularFile c)"
    by (simp add: arcname_mimetype)
  moreover from l have cp: "cp \<in> set possible_paths"
    by (rule locate_or_create_css_other)
  moreover from l have "map_of fs1 [''mimetype''] = map_of fs [''mimetype'']"
    by (rule locate_or_create_css_other) simp_all
  moreover from cp have "cp \<noteq> [''mimetype'']"
    using mimetype_not_css_path by blast
  ultimately have "map_of fs2 [''mimetype''] = Some (RegularFile c)"
    using append_file_map_of [OF ap] by simp
  then have b: "out = ZipInfo ''mimetype'' ZIP_STORED c # write_other_files fs2"
    using out by (simp add: build_epub_mimetype)
  have "list_all (\<lambda>member. filename member \<noteq> ''mimetype'') (write_other_files fs2)"
    unfolding list_all_iff using write_other_files_names by blast
  with b show ?thesis by simp
qed

lemma rewrite_sample_epub:
  "rewrite_archive get_no_hyphenation_css sample_epub =
     Inr [ZipInfo ''mimetype'' ZIP_STORED ''application/epub+zip'',
          ZipInfo ''META-INF/container.xml'' ZIP_DEFLATED ''<container/>'',
          ZipInfo ''OEBPS/style.css'' ZIP_DEFLATED (''p { margin: 0 }'' @ get_no_hyphenation_css),
          ZipInfo ''OEBPS/ch1.xhtml'' ZIP_DEFLATED ''<html/>'']"
  by code_simp

theorem mimetype_first_and_stored_witness:
  "zip_read sample_epub ''mimetype'' = Some ''application/epub+zip''
   \<and> filter (\<lambda>member. arcname (filename member) = [''mimetype'']) sample_epub =
       [ZipInfo ''mimetype'' ZIP_STORED ''application/epub+zip'']
   \<and> (\<exists>out. rewrite_archive get_no_hyphenation_css sample_epub = Inr out
          \<and> hd out = ZipInfo ''mimetype'' ZIP_STORED ''application/epub+zip''
          \<and> list_all (\<lambda>member. filename member \<noteq> ''mimetype'') (tl out))"
proof -
  have z: "zip_read sample_epub ''mimetype'' = Some ''application/epub+zip''"
    by code_simp
  have o: "filter (\<lambda>member. arcname (filename member) = [''mimetype'']) sample_epub =
       [ZipInfo ''mimetype'' ZIP_STORED ''application/epub+zip'']"
    by code_simp
  have o': "\<forall>member \<in> set sample_epub. arcname (filename member) = [''mimetype'']
           \<longrightarrow> filename member = ''mimetype''"
  proof (intro ballI impI)
    fix member assume "member \<in> set sample_epub" "arcname (filename member) = [''mimetype'']"
    then have "member \<in> set (filter (\<lambda>member. arcname (filename member) = [''mimetype'']) sample_epub)"
      by simp
    then show "filename member = ''mimetype''"
      unfolding o by simp
  qed
  from mimetype_first_and_stored [OF rewrite_sample_epub z o'] z o rewrite_sample_epub
  show ?thesis by blast
qed

text \<open>
  Claim C2 as stated, for every source archive with a member named \<open>mimetype\<close>, fails
  where a later member is named \<open>./mimetype\<close>: extraction writes it over the file
  \<open>mimetype\<close>, and the output archive stores its bytes, not those of the source's
  \<open>mimetype\<close>, under that name.
\<close>

theorem mimetype_overwritten_counterexample:
  "zip_read epub_with_second_mimetype ''mimetype'' = Some ''application/epub+zip''
   \<and> rewrite_archive (get_margin_css 20) epub_with_second_mimetype =
       Inr [ZipInfo ''mimetype'' ZIP_STORED ''text/plain'',
            ZipInfo ''OEBPS/style.css'' ZIP_DEFLATED (''p { margin: 0 }'' @ get_margin_css 20)]"
  by code_simp
lemma ancestors_single: "ancestors [x] = []"
  by (simp add: ancestors_def)

lemma ancestors_pair: "ancestors [x, y] = [[x]]"
  by (simp add: ancestors_def)

lemma makedirs_OPS:
  assumes "\<not> is_file fs [''OPS'']"
  shows "\<exists>fs1. makedirs fs [''OPS''] = Inr fs1 \<and> \<not> is_file fs1 [''OPS'']
           \<and> (\<forall>q. q \<noteq> [''OPS''] \<longrightarrow> map_of fs1 q = map_of fs q)
           \<and> (\<forall>q. is_dir fs1 q \<longrightarrow> q = [''OPS''] \<or> is_dir fs q)"
proof (cases "is_dir fs [''OPS'']")
  case True
  with assms show ?thesis by (simp add: makedirs_def)
next
  case False
  then have n: "map_of fs [''OPS''] = None"
    using assms by (auto simp: is_dir_def is_file_def split: option.splits node.splits)
  have m: "makedirs fs [''OPS''] = Inr (fs @ [([''OPS''], Directory)])"
    using False assms by (simp add: makedirs_def file_in_the_way_def ancestors_single)
  have "\<not> is_file (fs @ [([''OPS''], Directory)]) [''OPS'']"
    using n by (simp add: is_file_def map_add_def)
  moreover have "map_of (fs @ [([''OPS''], Directory)]) q = map_of fs q" if "q \<noteq> [''OPS'']" for q
    using that by (rule map_of_snoc_other)
  moreover have "q = [''OPS''] \<or> is_dir fs q" if "is_dir (fs @ [([''OPS''], Directory)]) q" for q
  proof (cases "q = [''OPS'']")
    case True
    then show ?thesis by simp
  next
    case False
    have "strict_prefix q [''OPS''] \<Longrightarrow> q = []"
      by (cases q) (auto simp: strict_prefix_def)
    with that False show ?thesis
      by (auto simp: is_dir_iff map_add_def split: option.splits)
  qed
  ultimately show ?thesis using m by blast
qed

lemma create_css_when_none:
  assumes none: "find_css_file fs = None" and nofile: "\<not> is_file fs [''OPS'']"
  shows "\<exists>fs'. locate_or_create_css fs = Inr ([''OPS'', ''style.css''], fs')
           \<and> map_of fs' [''OPS'', ''style.css''] = Some (RegularFile css_placeholder)
           \<and> is_dir fs' [''OPS'']
           \<and> (\<forall>q. q \<noteq> [''OPS'', ''style.css''] \<and> q \<noteq> [''OPS''] \<longrightarrow> map_of fs' q = map_of fs q)
           \<and> (\<exists>fs''. append_file fs' [''OPS'', ''style.css''] css = Inr fs''
                  \<and> map_of fs'' = (map_of fs')([''OPS'', ''style.css''] \<mapsto> RegularFile (css_placeholder @ css)))"
proof -
  let ?css = "[''OPS'', ''style.css'']"
  from makedirs_OPS [OF nofile] obtain fs1 where
    m: "makedirs fs [''OPS''] = Inr fs1" and nf1: "\<not> is_file fs1 [''OPS'']" and
    same: "\<And>q. q \<noteq> [''OPS''] \<Longrightarrow> map_of fs1 q = map_of fs q" and
    dirs: "\<And>q. is_dir fs1 q \<Longrightarrow> q = [''OPS''] \<or> is_dir fs q"
    by blast
  from none have "\<not> path_exists fs ?css"
    by (simp add: find_css_file_None_iff possible_paths_def)
  then have nd: "\<not> is_dir fs ?css"
    by (simp add: path_exists_def)
  then have nd1: "\<not> is_dir fs1 ?css"
    using dirs by blast
  have nw1: "\<not> file_in_the_way fs1 ?css"
    using nf1 by (simp add: file_in_the_way_def ancestors_pair)
  let ?fs' = "AList.update ?css (RegularFile css_placeholder) fs1"
  have w: "write_file fs1 ?css css_placeholder = Inr ?fs'"
    using nd1 nw1 by (simp add: write_file_def)
  have loc: "locate_or_create_css fs = Inr (?css, ?fs')"
    using none m w by (simp add: locate_or_create_css_def)
  have content: "map_of ?fs' ?css = Some (RegularFile css_placeholder)"
    by (rule map_of_update_same)
  have "?css \<in> fst ` set ?fs'"
    using content by (metis map_of_eq_None_iff option.distinct(1))
  moreover have "strict_prefix [''OPS''] ?css"
    by (simp add: strict_prefix_def)
  ultimately have d: "is_dir ?fs' [''OPS'']"
    unfolding is_dir_iff by blast
  have others: "map_of ?fs' q = map_of fs q" if "q \<noteq> ?css \<and> q \<noteq> [''OPS'']" for q
    using that same by (simp add: map_of_update_other)
  have nd': "\<not> is_dir ?fs' ?css"
  proof
    assume "is_dir ?fs' ?css"
    then obtain q where q: "q \<in> fst ` set ?fs'" "strict_prefix ?css q"
      using content by (auto simp: is_dir_iff)
    then have "q \<noteq> ?css" by auto
    with q(1) have "q \<in> fst ` set fs1"
      by (metis (no_types, lifting) domIff dom_map_of_conv_image_fst map_of_update_other)
    with q(2) have "is_dir fs1 ?css"
      unfolding is_dir_iff by blast
    with nd1 show False by contradiction
  qed
  have "\<not> is_file ?fs' [''OPS'']"
    using nf1 by (simp add: is_file_def map_of_update_other)
  then have nw': "\<not> file_in_the_way ?fs' ?css"
    by (simp add: file_in_the_way_def ancestors_pair)
  have "append_file ?fs' ?css css =
          Inr (AList.update ?css (RegularFile (css_placeholder @ css)) ?fs')"
    using nd' nw' content by (simp add: append_file_def)
  then have "\<exists>fs''. append_file ?fs' ?css css = Inr fs''
        \<and> map_of fs'' = (map_of ?fs')(?css \<mapsto> RegularFile (css_placeholder @ css))"
    by (simp add: update_conv')
  with loc content d others show ?thesis
    by blast
qed

subsection \<open>The extracted directory is well formed\<close>

lemma wf_tempdir_iff:
  "wf_tempdir fs \<longleftrightarrow>
     distinct (map fst fs) \<and> (\<forall>p \<in> fst ` set fs. p \<noteq> [] \<and> \<not> file_in_the_way fs p)"
  by (auto simp: wf_tempdir_def list_all_iff)

lemma is_file_update:
  "is_file (AList.update p (RegularFile c) fs) r \<longleftrightarrow> r = p \<or> is_file fs r"
  by (simp add: is_file_def update_conv')

lemma wf_write_file:
  assumes wf: "wf_tempdir fs" and w: "write_file fs p c = Inr fs'"
  shows "wf_tempdir fs'"
proof -
  from w have nd: "\<not> is_dir fs p" and nw: "\<not> file_in_the_way fs p"
    and fs': "fs' = AList.update p (RegularFile c) fs"
    by (auto simp: write_file_def split: if_splits)
  have dom: "fst ` set fs' = insert p (fst ` set fs)"
    unfolding fs' by (simp add: dom_update)
  have "distinct (map fst fs')"
    unfolding fs' using wf by (simp add: wf_tempdir_iff distinct_update)
  moreover have "q \<noteq> [] \<and> \<not> file_in_the_way fs' q" if q: "q \<in> fst ` set fs'" for q
  proof
    show "q \<noteq> []"
      using q dom nd wf by (auto simp: is_dir_def wf_tempdir_iff)
    show "\<not> file_in_the_way fs' q"
    proof
      assume "file_in_the_way fs' q"
      then obtain r where r: "r \<noteq> []" "strict_prefix r q" "is_file fs' r"
        by (auto simp: file_in_the_way_iff)
      show False
      proof (cases "r = p")
        case True
        with r(2) have "q \<noteq> p" by auto
        with q dom have "q \<in> fst ` set fs" by simp
        with r(2) True have "is_dir fs p"
          unfolding is_dir_iff by blast
        with nd show False by contradiction
      next
        case False
        with r(3) have f: "is_file fs r"
          by (simp add: fs' is_file_update)
        show False
        proof (cases "q = p")
          case True
          with r f have "file_in_the_way fs p"
            by (auto simp: file_in_the_way_iff)
          with nw show False by contradiction
        next
          case False
          with q dom have "q \<in> fst ` set fs" by simp
          with wf have "\<not> file_in_the_way fs q"
            by (auto simp: wf_tempdir_iff)
          with r f show False
            by (auto simp: file_in_the_way_iff)
        qed
      qed
    qed
  qed
  ultimately show ?thesis
    by (simp add: wf_tempdir_iff)
qed

lemma wf_makedirs:
  assumes wf: "wf_tempdir fs" and m: "makedirs fs p = Inr fs'"
  shows "wf_tempdir fs'"
proof (cases "is_dir fs p")
  case True
  with m wf show ?thesis by (simp add: makedirs_def)
next
  case False
  with m have nf: "\<not> is_file fs p" and nw: "\<not> file_in_the_way fs p"
    and fs': "fs' = fs @ [(p, Directory)]"
    by (auto simp: makedirs_def split: if_splits)
  from False nf have none: "map_of fs p = None"
    by (auto simp: is_dir_def is_file_def split: option.splits node.splits)
  then have notin: "p \<notin> fst ` set fs"
    by (simp add: map_of_eq_None_iff)
  have files: "is_file fs' r \<longleftrightarrow> is_file fs r" for r
    using none by (cases "r = p") (auto simp: fs' is_file_def map_add_def split: option.splits)
  have "distinct (map fst fs')"
    using wf notin by (simp add: fs' wf_tempdir_iff)
  moreover have "q \<noteq> [] \<and> \<not> file_in_the_way fs' q" if q: "q \<in> fst ` set fs'" for q
  proof (cases "q = p")
    case True
    with False nw files show ?thesis
      by (auto simp: is_dir_def file_in_the_way_iff)
  next
    case False
    with q have "q \<in> fst ` set fs" by (auto simp: fs')
    with wf files show ?thesis
      by (auto simp: wf_tempdir_iff file_in_the_way_iff)
  qed
  ultimately show ?thesis
    by (simp add: wf_tempdir_iff)
qed

lemma wf_extract_names:
  "wf_tempdir fs \<Longrightarrow> extract_names a fs names = Inr fs' \<Longrightarrow> wf_tempdir fs'"
proof (induction names arbitrary: fs)
  case Nil
  then show ?case by simp
next
  case (Cons n names)
  from Cons.prems(2) obtain member fs1 where
    s1: "extract_member fs member = Inr fs1" and s2: "extract_names a fs1 names = Inr fs'"
    by (auto split: option.splits sum.splits)
  from s1 Cons.prems(1) have "wf_tempdir fs1"
    by (auto simp: extract_member_def Let_def split: if_splits intro: wf_makedirs wf_write_file)
  then show ?case using s2 by (rule Cons.IH)
qed

lemma wf_extractall: "extractall a = Inr fs \<Longrightarrow> wf_tempdir fs"
  unfolding extractall_def by (rule wf_extract_names [of "[]"]) (simp_all add: wf_tempdir_def)

lemma wf_file_is_no_dir:
  assumes wf: "wf_tempdir fs" and f: "map_of fs p = Some (RegularFile c)"
  shows "\<not> is_dir fs p" and "\<not> file_in_the_way fs p"
proof -
  from f have p: "p \<in> fst ` set fs"
    by (metis map_of_eq_None_iff option.distinct(1))
  with wf show "\<not> file_in_the_way fs p"
    by (auto simp: wf_tempdir_iff)
  from p wf have ne: "p \<noteq> []"
    by (auto simp: wf_tempdir_iff)
  show "\<not> is_dir fs p"
  proof
    assume "is_dir fs p"
    with f ne obtain q where q: "q \<in> fst ` set fs" "strict_prefix p q"
      by (auto simp: is_dir_iff)
    from f have "is_file fs p" by (simp add: is_file_def)
    with q(2) ne have "file_in_the_way fs q"
      by (auto simp: file_in_the_way_iff)
    with wf q(1) show False
      by (auto simp: wf_tempdir_iff)
  qed
qed

subsection \<open>The append goes to the located stylesheet\<close>

lemma regular_files_iff: "(p, c) \<in> set (regular_files fs) \<longleftrightarrow> (p, RegularFile c) \<in> set fs"
  by (induction fs rule: regular_files.induct) auto

lemma build_epub_has_file:
  assumes "map_of fs p = Some (RegularFile c)" and "basename p \<noteq> ''mimetype''"
  shows "ZipInfo (join_path p) ZIP_DEFLATED c \<in> set (build_epub fs)"
proof -
  from assms(1) have "(p, RegularFile c) \<in> set fs" by (rule map_of_SomeD)
  then have "(p, c) \<in> set (regular_files fs)" by (simp add: regular_files_iff)
  with assms(2) have "ZipInfo (join_path p) ZIP_DEFLATED c \<in> set (write_other_files fs)"
    by (force simp: write_other_files_def)
  then show ?thesis by (simp add: build_epub_def)
qed

lemma css_path_basename: "p \<in> set possible_paths \<Longrightarrow> basename p \<noteq> ''mimetype''"
  by (auto simp: possible_paths_def basename_def)

lemma rewrite_archive_found:
  assumes "extractall a = Inr fs" and "find_css_file fs = Some p"
  shows "rewrite_archive css a =
           (case append_file fs p css of Inl err \<Rightarrow> Inl err | Inr fs2 \<Rightarrow> Inr (build_epub fs2))"
  using assms by (simp add: rewrite_archive_def locate_or_create_css_def)

lemma rewrite_archive_found_file:
  assumes x: "extractall a = Inr fs" and f: "find_css_file fs = Some p"
    and old: "map_of fs p = Some (RegularFile old)"
  shows "rewrite_archive css a = Inr (build_epub (AList.update p (RegularFile (old @ css)) fs))"
    and "ZipInfo (join_path p) ZIP_DEFLATED (old @ css)
           \<in> set (build_epub (AList.update p (RegularFile (old @ css)) fs))"
proof -
  from x have wf: "wf_tempdir fs" by (rule wf_extractall)
  from wf_file_is_no_dir [OF wf old] old
  have "append_file fs p css = Inr (AList.update p (RegularFile (old @ css)) fs)"
    by (simp add: append_file_def)
  with rewrite_archive_found [OF x f, of css]
  show "rewrite_archive css a = Inr (build_epub (AList.update p (RegularFile (old @ css)) fs))"
    by simp
  from f have "basename p \<noteq> ''mimetype''"
    by (auto dest: find_css_file_in_paths css_path_basename)
  then show "ZipInfo (join_path p) ZIP_DEFLATED (old @ css)
           \<in> set (build_epub (AList.update p (RegularFile (old @ css)) fs))"
    by (rule build_epub_has_file [OF map_of_update_same])
qed

lemma rewrite_archive_created:
  assumes x: "extractall a = Inr fs" and none: "find_css_file fs = None"
    and nofile: "\<not> is_file fs [''OPS'']"
  shows "\<exists>fs2. rewrite_archive css a = Inr (build_epub fs2)
           \<and> map_of fs2 [''OPS'', ''style.css''] = Some (RegularFile (css_placeholder @ css))
           \<and> (\<forall>q. q \<noteq> [''OPS'', ''style.css''] \<and> q \<noteq> [''OPS''] \<longrightarrow> map_of fs2 q = map_of fs q)
           \<and> ZipInfo ''OPS/style.css'' ZIP_DEFLATED (css_placeholder @ css) \<in> set (build_epub fs2)"
proof -
  from create_css_when_none [OF none nofile, of css] obtain fs1 fs2 where
    l: "locate_or_create_css fs = Inr ([''OPS'', ''style.css''], fs1)" and
    o: "\<forall>q. q \<noteq> [''OPS'', ''style.css''] \<and> q \<noteq> [''OPS''] \<longrightarrow> map_of fs1 q = map_of fs q" and
    ap: "append_file fs1 [''OPS'', ''style.css''] css = Inr fs2" and
    m: "map_of fs2 = (map_of fs1)([''OPS'', ''style.css''] \<mapsto> RegularFile (css_placeholder @ css))"
    by blast
  have r: "rewrite_archive css a = Inr (build_epub fs2)"
    using x l ap by (simp add: rewrite_archive_def)
  have c: "map_of fs2 [''OPS'', ''style.css''] = Some (RegularFile (css_placeholder @ css))"
    using m by simp
  have "ZipInfo (join_path [''OPS'', ''style.css'']) ZIP_DEFLATED (css_placeholder @ css)
          \<in> set (build_epub fs2)"
    using c by (rule build_epub_has_file) (simp add: basename_def)
  then have "ZipInfo ''OPS/style.css'' ZIP_DEFLATED (css_placeholder @ css) \<in> set (build_epub fs2)"
    by simp
  with r c o m show ?thesis by auto
qed

text \<open>
  Claim C6 (as amended). In every extracted directory \<open>find_css_file\<close> returns the first
  of \<open>OPS/style.css\<close>, \<open>OEBPS/style.css\<close>, \<open>styles/style.css\<close>, \<open>css/style.css\<close> that exists,
  and \<open>process_epub\<close> appends at that path: where it is a regular file, the archive written
  is that of the directory with the fragment appended to this one file, and holds the
  member of that path with the old bytes followed by the fragment. When none of the four
  exists and no regular file is named \<open>OPS\<close>, the directory \<open>OPS\<close> is made, \<open>OPS/style.css\<close>
  is created holding the one-line comment, nothing else in the directory changes, and the
  append goes to that path: the archive written holds the member \<open>OPS/style.css\<close> with
  the comment followed by the fragment.
\<close>

theorem stylesheet_located_or_created:
  "possible_paths =
     [[''OPS'', ''style.css''], [''OEBPS'', ''style.css''], [''styles'', ''style.css''],
      [''css'', ''style.css'']]
   \<and> (find_css_file fs = Some p \<longleftrightarrow>
        (\<exists>i<length possible_paths. p = possible_paths ! i \<and> path_exists fs p \<and>
           (\<forall>j<i. \<not> path_exists fs (possible_paths ! j))))
   \<and> (find_css_file fs = Some p \<longrightarrow> locate_or_create_css fs = Inr (p, fs))
   \<and> (find_css_file fs = None \<and> \<not> is_file fs [''OPS''] \<longrightarrow>
        (\<exists>fs'. locate_or_create_css fs = Inr ([''OPS'', ''style.css''], fs')
           \<and> map_of fs' [''OPS'', ''style.css''] = Some (RegularFile css_placeholder)
           \<and> is_dir fs' [''OPS'']
           \<and> (\<forall>q. q \<noteq> [''OPS'', ''style.css''] \<and> q \<noteq> [''OPS''] \<longrightarrow> map_of fs' q = map_of fs q)
           \<and> (\<exists>fs''. append_file fs' [''OPS'', ''style.css''] css_content = Inr fs''
                  \<and> map_of fs'' =
                      (map_of fs')([''OPS'', ''style.css''] \<mapsto>
                         RegularFile (css_placeholder @ css_content)))))
   \<and> (extractall a = Inr fs \<and> find_css_file fs = Some p \<longrightarrow>
        rewrite_archive css_content a =
          (case append_file fs p css_content of
             Inl err \<Rightarrow> Inl err
           | Inr fs2 \<Rightarrow> Inr (build_epub fs2)))
   \<and> (extractall a = Inr fs \<and> find_css_file fs = Some p
        \<and> map_of fs p = Some (RegularFile old) \<longrightarrow>
        rewrite_archive css_content a =
          Inr (build_epub (AList.update p (RegularFile (old @ css_content)) fs))
        \<and> ZipInfo (join_path p) ZIP_DEFLATED (old @ css_content)
            \<in> set (build_epub (AList.update p (RegularFile (old @ css_content)) fs)))
   \<and> (extractall a = Inr fs \<and> find_css_file fs = None \<and> \<not> is_file fs [''OPS''] \<longrightarrow>
        (\<exists>fs2. rewrite_archive css_content a = Inr (build_epub fs2)
           \<and> map_of fs2 [''OPS'', ''style.css''] =
               Some (RegularFile (css_placeholder @ css_content))
           \<and> (\<forall>q. q \<noteq> [''OPS'', ''style.css''] \<and> q \<noteq> [''OPS''] \<longrightarrow> map_of fs2 q = map_of fs q)
           \<and> ZipInfo ''OPS/style.css'' ZIP_DEFLATED (css_placeholder @ css_content)
               \<in> set (build_epub fs2)))"
proof -
  have a: "find_css_file fs = Some p \<longrightarrow> locate_or_create_css fs = Inr (p, fs)"
    by (simp add: locate_or_create_css_def)
  have b: "extractall a = Inr fs \<and> find_css_file fs = Some p \<longrightarrow>
        rewrite_archive css_content a =
          (case append_file fs p css_content of
             Inl err \<Rightarrow> Inl err
           | Inr fs2 \<Rightarrow> Inr (build_epub fs2))"
    using rewrite_archive_found [of a fs p css_content] by blast
  have c: "extractall a = Inr fs \<and> find_css_file fs = Some p
        \<and> map_of fs p = Some (RegularFile old) \<longrightarrow>
        rewrite_archive css_content a =
          Inr (build_epub (AList.update p (RegularFile (old @ css_content)) fs))
        \<and> ZipInfo (join_path p) ZIP_DEFLATED (old @ css_content)
            \<in> set (build_epub (AList.update p (RegularFile (old @ css_content)) fs))"
    using rewrite_archive_found_file [of a fs p old css_content] by blast
  have d: "extractall a = Inr fs \<and> find_css_file fs = None \<and> \<not> is_file fs [''OPS''] \<longrightarrow>
        (\<exists>fs2. rewrite_archive css_content a = Inr (build_epub fs2)
           \<and> map_of fs2 [''OPS'', ''style.css''] =
               Some (RegularFile (css_placeholder @ css_content))
           \<and> (\<forall>q. q \<noteq> [''OPS'', ''style.css''] \<and> q \<noteq> [''OPS''] \<longrightarrow> map_of fs2 q = map_of fs q)
           \<and> ZipInfo ''OPS/style.css'' ZIP_DEFLATED (css_placeholder @ css_content)
               \<in> set (build_epub fs2))"
    using rewrite_archive_created [of a fs css_content] by blast
  have e: "find_css_file fs = None \<and> \<not> is_file fs [''OPS''] \<longrightarrow>
        (\<exists>fs'. locate_or_create_css fs = Inr ([''OPS'', ''style.css''], fs')
           \<and> map_of fs' [''OPS'', ''style.css''] = Some (RegularFile css_placeholder)
           \<and> is_dir fs' [''OPS'']
           \<and> (\<forall>q. q \<noteq> [''OPS'', ''style.css''] \<and> q \<noteq> [''OPS''] \<longrightarrow> map_of fs' q = map_of fs q)
           \<and> (\<exists>fs''. append_file fs' [''OPS'', ''style.css''] css_content = Inr fs''
                  \<and> map_of fs'' =
                      (map_of fs')([''OPS'', ''style.css''] \<mapsto>
                         RegularFile (css_placeholder @ css_content))))"
    using create_css_when_none [of fs css_content] by blast
  have f: "possible_paths =
     [[''OPS'', ''style.css''], [''OEBPS'', ''style.css''], [''styles'', ''style.css''],
      [''css'', ''style.css'']]"
    by (simp add: possible_paths_def)
  note g = find_css_file_Some_iff [of fs p]
  from f g a e b c d show ?thesis
    by (intro conjI)
qed

lemma extract_epub_without_css:
  "extractall epub_without_css =
     Inr [([''mimetype''], RegularFile ''application/epub+zip''),
          ([''META-INF'', ''container.xml''], RegularFile ''<container/>''),
          ([''text'', ''ch1.xhtml''], RegularFile ''<html/>'')]"
  by code_simp

lemma extract_sample_epub:
  "extractall sample_epub =
     Inr [([''mimetype''], RegularFile ''application/epub+zip''),
          ([''META-INF'', ''container.xml''], RegularFile ''<container/>''),
          ([''OEBPS'', ''style.css''], RegularFile ''p { margin: 0 }''),
          ([''OEBPS'', ''ch1.xhtml''], RegularFile ''<html/>'')]"
  by code_simp

theorem stylesheet_located_or_created_witness:
  "find_css_file [([''mimetype''], RegularFile ''application/epub+zip''),
                  ([''META-INF'', ''container.xml''], RegularFile ''<container/>''),
                  ([''text'', ''ch1.xhtml''], RegularFile ''<html/>'')] = None
   \<and> \<not> is_file [([''mimetype''], RegularFile ''application/epub+zip''),
                 ([''META-INF'', ''container.xml''], RegularFile ''<container/>''),
                 ([''text'', ''ch1.xhtml''], RegularFile ''<html/>'')] [''OPS'']
   \<and> extractall epub_without_css =
       Inr [([''mimetype''], RegularFile ''application/epub+zip''),
            ([''META-INF'', ''container.xml''], RegularFile ''<container/>''),
            ([''text'', ''ch1.xhtml''], RegularFile ''<html/>'')]
   \<and> (\<exists>fs'. locate_or_create_css
                [([''mimetype''], RegularFile ''application/epub+zip''),
                 ([''META-INF'', ''container.xml''], RegularFile ''<container/>''),
                 ([''text'', ''ch1.xhtml''], RegularFile ''<html/>'')] =
              Inr ([''OPS'', ''style.css''], fs')
          \<and> map_of fs' [''OPS'', ''style.css''] = Some (RegularFile css_placeholder))
   \<and> (\<exists>fs2. rewrite_archive get_no_hyphenation_css epub_without_css = Inr (build_epub fs2)
          \<and> map_of fs2 [''OPS'', ''style.css''] =
              Some (RegularFile (css_placeholder @ get_no_hyphenation_css))
          \<and> ZipInfo ''OPS/style.css'' ZIP_DEFLATED (css_placeholder @ get_no_hyphenation_css)
              \<in> set (build_epub fs2))"
proof -
  let ?fs = "[([''mimetype''], RegularFile ''application/epub+zip''),
              ([''META-INF'', ''container.xml''], RegularFile ''<container/>''),
              ([''text'', ''ch1.xhtml''], RegularFile ''<html/>'')]"
  have n: "find_css_file ?fs = None" by code_simp
  have f: "\<not> is_file ?fs [''OPS'']" by code_simp
  note x = extract_epub_without_css
  note t = stylesheet_located_or_created
    [where fs = ?fs and css_content = get_no_hyphenation_css and a = epub_without_css]
  from t n f obtain fs' where
    "locate_or_create_css ?fs = Inr ([''OPS'', ''style.css''], fs')"
    "map_of fs' [''OPS'', ''style.css''] = Some (RegularFile css_placeholder)"
    by blast
  moreover from t n f x obtain fs2 where
    "rewrite_archive get_no_hyphenation_css epub_without_css = Inr (build_epub fs2)"
    "map_of fs2 [''OPS'', ''style.css''] =
       Some (RegularFile (css_placeholder @ get_no_hyphenation_css))"
    "ZipInfo ''OPS/style.css'' ZIP_DEFLATED (css_placeholder @ get_no_hyphenation_css)
       \<in> set (build_epub fs2)"
    by blast
  ultimately show ?thesis using n f x by blast
qed

text \<open>
  Claim C6 as stated, for every extracted directory, fails where the archive has a
  regular file named \<open>OPS\<close> at its root: none of the four paths exists, \<open>os.makedirs\<close>
  raises \<open>FileExistsError\<close>, no stylesheet is created and no archive is written.
\<close>

theorem stylesheet_not_created_counterexample:
  "extractall epub_with_file_named_OPS =
     Inr [([''mimetype''], RegularFile ''application/epub+zip''), ([''OPS''], RegularFile ''notes'')]
   \<and> find_css_file
        [([''mimetype''], RegularFile ''application/epub+zip''), ([''OPS''], RegularFile ''notes'')] = None
   \<and> locate_or_create_css
        [([''mimetype''], RegularFile ''application/epub+zip''), ([''OPS''], RegularFile ''notes'')] =
      Inl FileExistsError
   \<and> rewrite_archive get_no_hyphenation_css epub_with_file_named_OPS = Inl FileExistsError"
  by code_simp

text \<open>
  Claim C1, evaluated where it fails. The source archive has the entry
  \<open>OEBPS/fonts/mimetype\<close>; the walk skips every file whose name is \<open>mimetype\<close>, in any
  directory, as "already added", though only the root one was. The output archive is
  written, with the stylesheet extended by the fragment, and has no entry of that name.
\<close>

theorem nested_mimetype_entry_is_dropped:
  "zip_read epub_with_nested_mimetype ''OEBPS/fonts/mimetype'' = Some ''font/ttf''
   \<and> rewrite_archive (get_margin_css 20) epub_with_nested_mimetype =
       Inr [ZipInfo ''mimetype'' ZIP_STORED ''application/epub+zip'',
            ZipInfo ''META-INF/container.xml'' ZIP_DEFLATED ''<container/>'',
            ZipInfo ''OEBPS/style.css'' ZIP_DEFLATED (''p { margin: 0 }'' @ get_margin_css 20)]
   \<and> zip_read
        [ZipInfo ''mimetype'' ZIP_STORED ''application/epub+zip'',
         ZipInfo ''META-INF/container.xml'' ZIP_DEFLATED ''<container/>'',
         ZipInfo ''OEBPS/style.css'' ZIP_DEFLATED (''p { margin: 0 }'' @ get_margin_css 20)]
        ''OEBPS/fonts/mimetype'' = None"
  by code_simp
section \<open>Properties of paths\<close>

lemma split_char_nonempty: "split_char sep s \<noteq> []"
  by (induction s) (auto split: list.splits)

lemma split_char_no_sep: "x \<in> set (split_char sep s) \<Longrightarrow> sep \<notin> set x"
proof (induction s arbitrary: x)
  case Nil
  then show ?case by simp
next
  case (Cons c cs)
  show ?case
  proof (cases "c = sep")
    case True
    with Cons show ?thesis by auto
  next
    case False
    obtain l ls where s: "split_char sep cs = l # ls"
      using split_char_nonempty [of sep cs] by (cases "split_char sep cs") auto
    with Cons.prems False have "x = c # l \<or> x \<in> set ls" by simp
    then show ?thesis
    proof
      assume "x = c # l"
      moreover have "sep \<notin> set l" using Cons.IH [of l] s by simp
      ultimately show ?thesis using False by simp
    next
      assume "x \<in> set ls"
      then show ?thesis using Cons.IH [of x] s by simp
    qed
  qed
qed

lemma split_char_without_sep: "sep \<notin> set s \<Longrightarrow> split_char sep s = [s]"
  by (induction s) auto

lemma parts_Path_no_slash: "x \<in> set (parts (Path s)) \<Longrightarrow> CHR ''/'' \<notin> set x"
  by (auto simp: Path_def split: prod.splits dest: split_char_no_sep)

lemma name_Path_no_slash: "CHR ''/'' \<notin> set (name (Path s))"
proof (cases "parts (Path s) = []")
  case True
  then show ?thesis by (simp add: name_def)
next
  case False
  then have "last (parts (Path s)) \<in> set (parts (Path s))" by simp
  then have "CHR ''/'' \<notin> set (last (parts (Path s)))" by (rule parts_Path_no_slash)
  then show ?thesis using False by (simp add: name_def)
qed

lemma stem_is_prefix: "prefix (stem p) (name p)"
  by (auto simp: stem_def take_is_prefix split: option.splits)

lemma stem_Path_no_slash: "CHR ''/'' \<notin> set (stem (Path s))"
  using stem_is_prefix [of "Path s"] name_Path_no_slash [of s]
  by (meson set_mono_prefix subsetD)

lemma stem_suffix: "stem p @ path_suffix p = name p"
  by (auto simp: stem_def path_suffix_def split: option.splits)

lemma rfind_dot_Some: "rfind_dot s = Some i \<Longrightarrow> i < length s \<and> s ! i = CHR ''.''"
proof -
  assume a: "rfind_dot s = Some i"
  let ?n = "length (takeWhile (\<lambda>c. c \<noteq> CHR ''.'') (rev s))"
  have le: "?n \<le> length s"
    by (metis length_rev length_takeWhile_le)
  from a have n: "?n \<noteq> length s" and i: "i = length s - ?n - 1"
    by (auto simp: rfind_dot_def Let_def split: if_splits)
  with le have lt: "?n < length (rev s)" by simp
  then have "\<not> (rev s ! ?n \<noteq> CHR ''.'')"
    by (rule nth_length_takeWhile)
  moreover have "rev s ! ?n = s ! (length s - Suc ?n)"
    using lt by (simp add: rev_nth)
  ultimately show ?thesis using i lt by simp
qed

lemma path_suffix_shape: "path_suffix p = [] \<or> hd (path_suffix p) = CHR ''.''"
proof (cases "rfind_dot (name p)")
  case None
  then show ?thesis by (simp add: path_suffix_def)
next
  case (Some i)
  then have "i < length (name p)" "name p ! i = CHR ''.''"
    using rfind_dot_Some by blast+
  then have "hd (drop i (name p)) = CHR ''.''"
    by (simp add: hd_drop_conv_nth)
  with Some show ?thesis by (simp add: path_suffix_def)
qed

lemma Path_single_component:
  assumes "CHR ''/'' \<notin> set x"
  shows "Path (x @ ''-upgrade.epub'') = PurePath [] [x @ ''-upgrade.epub'']"
proof -
  let ?s = "x @ ''-upgrade.epub''"
  have "take 1 ?s \<noteq> ''/''"
    using assms by (cases x) auto
  then have r: "splitroot ?s = ('''', ?s)"
    by (simp add: splitroot_def)
  have "CHR ''/'' \<notin> set ?s" using assms by simp
  then have sp: "split_char CHR ''/'' ?s = [?s]"
    by (rule split_char_without_sep)
  have "length ?s \<noteq> length ''.''" by simp
  then have "?s \<noteq> ''.''" by fastforce
  moreover have "?s \<noteq> []" by simp
  ultimately show ?thesis
    using r sp unfolding Path_def by simp
qed

lemma output_path_cli_eq:
  "output_path_cli s =
     PurePath (root (Path s)) (butlast (parts (Path s)) @ [stem (Path s) @ ''-upgrade.epub''])"
proof -
  have "Path (stem (Path s) @ ''-upgrade.epub'') = PurePath [] [stem (Path s) @ ''-upgrade.epub'']"
    using stem_Path_no_slash by (rule Path_single_component)
  then show ?thesis
    by (simp add: output_path_cli_def joinpath_def parent_def)
qed

lemma output_path_cli_differs: "output_path_cli s \<noteq> Path s"
proof
  assume eq: "output_path_cli s = Path s"
  let ?P = "Path s"
  from eq have p: "parts ?P = butlast (parts ?P) @ [stem ?P @ ''-upgrade.epub'']"
    by (metis output_path_cli_eq pure_path.sel(2))
  then have ne: "parts ?P \<noteq> []" by auto
  from p have "last (parts ?P) = stem ?P @ ''-upgrade.epub''"
    by (metis last_snoc)
  with ne have "name ?P = stem ?P @ ''-upgrade.epub''"
    by (simp add: name_def)
  with stem_suffix [of ?P] have "path_suffix ?P = ''-upgrade.epub''"
    by (metis same_append_eq)
  with path_suffix_shape [of ?P] show False by simp
qed

section \<open>Properties of the command-line program\<close>

lemma process_epub_cli_writes_output_only:
  assumes "process_epub_cli epub_path margin_size d = Inr d'"
  shows "d' (Path epub_path) = d (Path epub_path)"
    and "q \<noteq> output_path_cli epub_path \<Longrightarrow> d' q = d q"
proof -
  from assms obtain out where d': "d' = d(output_path_cli epub_path \<mapsto> Epub out)"
    by (auto simp: process_epub_cli_def split: sum.splits)
  show "q \<noteq> output_path_cli epub_path \<Longrightarrow> d' q = d q"
    using d' by simp
  show "d' (Path epub_path) = d (Path epub_path)"
    using d' output_path_cli_differs [of epub_path] by simp
qed

text \<open>
  Claim C10. For every input path the command-line \<open>process_epub\<close> computes the output
  path as the input's directory joined with the input's stem followed by
  \<open>-upgrade.epub\<close>; that path is never the input path, so a call that succeeds leaves the
  source file, and every file but the output, as it was (a call that fails writes
  nothing).
\<close>

theorem cli_output_beside_source:
  "output_path_cli epub_path =
     joinpath (parent (Path epub_path)) (stem (Path epub_path) @ ''-upgrade.epub'')
   \<and> output_path_cli epub_path =
       PurePath (root (Path epub_path))
         (butlast (parts (Path epub_path)) @ [stem (Path epub_path) @ ''-upgrade.epub''])
   \<and> output_path_cli epub_path \<noteq> Path epub_path
   \<and> (\<forall>d'. process_epub_cli epub_path margin_size d = Inr d' \<longrightarrow>
          d' (Path epub_path) = d (Path epub_path)
          \<and> (\<forall>q. q \<noteq> output_path_cli epub_path \<longrightarrow> d' q = d q))"
  using output_path_cli_eq [of epub_path] output_path_cli_differs [of epub_path]
    process_epub_cli_writes_output_only [of epub_path margin_size d]
  by (simp add: output_path_cli_def)

lemma process_sample_cli:
  "process_epub_cli ''books/a.epub'' 20 [Path ''books/a.epub'' \<mapsto> Epub sample_epub] =
     Inr ([Path ''books/a.epub'' \<mapsto> Epub sample_epub]
          (PurePath [] [''books'', ''a-upgrade.epub''] \<mapsto>
             Epub [ZipInfo ''mimetype'' ZIP_STORED ''application/epub+zip'',
                   ZipInfo ''META-INF/container.xml'' ZIP_DEFLATED ''<container/>'',
                   ZipInfo ''OEBPS/style.css'' ZIP_DEFLATED (''p { margin: 0 }'' @ get_margin_css 20),
                   ZipInfo ''OEBPS/ch1.xhtml'' ZIP_DEFLATED ''<html/>'']))"
proof -
  have r: "rewrite_archive (get_margin_css 20) sample_epub =
      Inr [ZipInfo ''mimetype'' ZIP_STORED ''application/epub+zip'',
           ZipInfo ''META-INF/container.xml'' ZIP_DEFLATED ''<container/>'',
           ZipInfo ''OEBPS/style.css'' ZIP_DEFLATED (''p { margin: 0 }'' @ get_margin_css 20),
           ZipInfo ''OEBPS/ch1.xhtml'' ZIP_DEFLATED ''<html/>'']"
    by code_simp
  have o: "output_path_cli ''books/a.epub'' = PurePath [] [''books'', ''a-upgrade.epub'']"
    by code_simp
  show ?thesis
    by (simp add: process_epub_cli_def open_epub_def r o)
qed

theorem cli_output_beside_source_witness:
  "output_path_cli ''books/a.epub'' = PurePath [] [''books'', ''a-upgrade.epub'']
   \<and> Path ''books/a.epub'' = PurePath [] [''books'', ''a.epub'']
   \<and> (\<exists>d'. process_epub_cli ''books/a.epub'' 20 [Path ''books/a.epub'' \<mapsto> Epub sample_epub] = Inr d'
          \<and> d' (Path ''books/a.epub'') = Some (Epub sample_epub))"
proof -
  have o: "output_path_cli ''books/a.epub'' = PurePath [] [''books'', ''a-upgrade.epub'']"
    by code_simp
  have p: "Path ''books/a.epub'' = PurePath [] [''books'', ''a.epub'']"
    by code_simp
  from cli_output_beside_source [of "''books/a.epub''" 20 "[Path ''books/a.epub'' \<mapsto> Epub sample_epub]"]
    process_sample_cli o p
  show ?thesis by auto
qed

subsection \<open>Discovery\<close>




lemma filter_existing_quiet: "\<not> list_ex is_processing (snd (filter_existing L d files))"
  by (induction files) (auto split: prod.splits if_splits)










subsection \<open>Fatal errors\<close>

lemma parse_args_bad_margin:
  "py_int L ''--margin'' = None \<Longrightarrow> i < length args \<Longrightarrow> args ! i = ''--margin'' \<Longrightarrow>
     (i + 1 < length args \<longrightarrow> py_int L (args ! (i + 1)) = None) \<Longrightarrow>
     (\<forall>a \<in> set (take i args). a \<noteq> ''--help'' \<and> a \<noteq> ''-h'') \<Longrightarrow>
     parse_args L args epub_files margin_size = Inl (Exit 1, [ErrMarginNeedsNumber])
     \<or> (\<exists>v. parse_args L args epub_files margin_size = Inl (Exit 1, [ErrNotANumber v]))"
proof (induction L args epub_files margin_size arbitrary: i rule: parse_args.induct)
  case (1 L epub_files margin_size)
  then show ?case by simp
next
  case (2 L arg rest epub_files margin_size)
  note nm = "2.prems"(1)
  show ?case
  proof (cases i)
    case 0
    with "2.prems"(3) have arg: "arg = ''--margin''" by simp
    show ?thesis
    proof (cases rest)
      case Nil
      with arg show ?thesis by simp
    next
      case (Cons v rest')
      with "2.prems"(4) 0 have "py_int L v = None" by simp
      with arg Cons show ?thesis by simp
    qed
  next
    case (Suc j)
    with "2.prems"(5) have nh: "arg \<noteq> ''--help''" "arg \<noteq> ''-h''"
      and nh': "\<forall>a \<in> set (take j rest). a \<noteq> ''--help'' \<and> a \<noteq> ''-h''"
      by simp_all
    from Suc "2.prems"(2,3,4) have j: "j < length rest" "rest ! j = ''--margin''"
      "j + 1 < length rest \<longrightarrow> py_int L (rest ! (j + 1)) = None"
      by simp_all
    show ?thesis
    proof (cases "arg = ''--margin''")
      case True
      from j(1) obtain v rest' where rest: "rest = v # rest'" by (cases rest) auto
      show ?thesis
      proof (cases "py_int L v")
        case None
        with True rest show ?thesis by simp
      next
        case (Some n)
        have "j \<noteq> 0"
        proof
          assume "j = 0"
          with j(2) rest have "v = ''--margin''" by simp
          with Some have "py_int L ''--margin'' = Some n" by blast
          with nm show False by simp
        qed
        then obtain k where k: "j = Suc k" by (cases j) auto
        with j rest nh' have "k < length rest'" "rest' ! k = ''--margin''"
          "k + 1 < length rest' \<longrightarrow> py_int L (rest' ! (k + 1)) = None"
          "\<forall>a \<in> set (take k rest'). a \<noteq> ''--help'' \<and> a \<noteq> ''-h''"
          by simp_all
        from "2.IH"(1) [OF _ True rest Some nm this] nh
        have "parse_args L rest' epub_files n = Inl (Exit 1, [ErrMarginNeedsNumber])
              \<or> (\<exists>v. parse_args L rest' epub_files n = Inl (Exit 1, [ErrNotANumber v]))"
          by simp
        with True rest Some show ?thesis by simp
      qed
    next
      case False
      show ?thesis
      proof (cases "arg = ''--all''")
        case True
        from "2.IH"(2) [OF _ False True nm j nh'] nh
        show ?thesis using True False by simp
      next
        case all: False
        show ?thesis
        proof (cases "CHR ''*'' \<in> set arg")
          case True
          from "2.IH"(3) [OF _ False all True nm j nh'] nh
          show ?thesis using True False all by simp
        next
          case star: False
          from "2.IH"(4) [OF _ False all star nm j nh'] nh
          show ?thesis using star False all by simp
        qed
      qed
    qed
  qed
qed


lemma resolve_files_quiet:
  "resolve_files L argv epub_files = Inr (found, msgs) \<Longrightarrow> \<not> list_ex is_processing msgs"
  by (auto simp: resolve_files_def Let_def split: if_splits)

lemma resolve_files_stop:
  "resolve_files L argv epub_files = Inl stop \<Longrightarrow> stop = (Exit 1, [NoEpubInFolder])"
  by (auto simp: resolve_files_def Let_def split: if_splits)

lemma main_cli_bad_margin:
  assumes "py_int L ''--margin'' = None"
    and "i < length (tl argv)" and "tl argv ! i = ''--margin''"
    and "i + 1 < length (tl argv) \<longrightarrow> py_int L (tl argv ! (i + 1)) = None"
    and "\<forall>a \<in> set (take i (tl argv)). a \<noteq> ''--help'' \<and> a \<noteq> ''-h''"
  shows "\<exists>msg. main_cli L argv d = (Exit 1, [msg], d)
           \<and> (msg = ErrMarginNeedsNumber \<or> (\<exists>v. msg = ErrNotANumber v))"
  using parse_args_bad_margin [OF assms, of "[]" 20]
  by (auto simp: main_cli_def)

lemma main_cli_no_files:
  assumes p: "parse_args L (tl argv) [] 20 = Inr (epub_files, margin_size)"
    and n: "files_to_process L argv d epub_files = []"
  shows "\<exists>msgs. main_cli L argv d = (Exit 1, msgs, d) \<and> msgs \<noteq> []
           \<and> \<not> list_ex is_processing msgs"
proof (cases "resolve_files L argv epub_files")
  case (Inl stop)
  then have "stop = (Exit 1, [NoEpubInFolder])" by (rule resolve_files_stop)
  with Inl p show ?thesis by (simp add: main_cli_def)
next
  case (Inr res)
  obtain found msgs1 where res: "res = (found, msgs1)" by (cases res)
  obtain unique_files msgs2 where fe: "filter_existing L d (remdups found) = (unique_files, msgs2)"
    by (cases "filter_existing L d (remdups found)")
  from n Inr res fe have u: "unique_files = []"
    by (simp add: files_to_process_def)
  have m1: "\<not> list_ex is_processing msgs1"
    using Inr res by (auto dest: resolve_files_quiet)
  have m2: "\<not> list_ex is_processing msgs2"
    using filter_existing_quiet [of L d "remdups found"] fe by simp
  show ?thesis
  proof (cases "found = []")
    case True
    with p Inr res m1 show ?thesis by (simp add: main_cli_def)
  next
    case False
    with p Inr res fe u m1 m2 show ?thesis by (simp add: main_cli_def)
  qed
qed

text \<open>
  Claim C8 (as amended). \<open>int\<close> does not accept the text \<open>--margin\<close>. In every invocation
  where an argument \<open>--margin\<close> that no \<open>--help\<close> or \<open>-h\<close> precedes is the last argument,
  or is followed by an argument that \<open>int\<close> does not accept, \<open>main\<close> prints one error
  message and exits with status 1; and in every invocation whose arguments are parsed to
  the end and from which discovery and filtering leave no file, it prints a message and
  exits with status 1. Either way the disk is as it was and no file is processed.
\<close>

theorem cli_fatal_errors:
  assumes "py_int L ''--margin'' = None"
  shows "(i < length (tl argv) \<and> tl argv ! i = ''--margin''
          \<and> (i + 1 < length (tl argv) \<longrightarrow> py_int L (tl argv ! (i + 1)) = None)
          \<and> (\<forall>a \<in> set (take i (tl argv)). a \<noteq> ''--help'' \<and> a \<noteq> ''-h'')
          \<longrightarrow> (\<exists>msg. main_cli L argv d = (Exit 1, [msg], d)
                 \<and> (msg = ErrMarginNeedsNumber \<or> (\<exists>v. msg = ErrNotANumber v))))
       \<and> (parse_args L (tl argv) [] 20 = Inr (epub_files, margin_size)
            \<and> files_to_process L argv d epub_files = []
          \<longrightarrow> (\<exists>msgs. main_cli L argv d = (Exit 1, msgs, d) \<and> msgs \<noteq> []
                 \<and> \<not> list_ex is_processing msgs))"
  using main_cli_bad_margin [OF assms, of i argv d]
    main_cli_no_files [of L argv epub_files margin_size d]
  by blast

theorem cli_fatal_errors_witness:
  "py_int (sample_lib [''book.epub'']) ''--margin'' = None
   \<and> py_int (sample_lib [''book.epub'']) ''abc'' = None
   \<and> (\<exists>msg. main_cli (sample_lib [''book.epub''])
                [''modify_epub_margins.py'', ''book.epub'', ''--margin'', ''abc'']
                [Path ''book.epub'' \<mapsto> Epub sample_epub]
              = (Exit 1, [msg], [Path ''book.epub'' \<mapsto> Epub sample_epub]))
   \<and> parse_args (sample_lib [''book.epub'']) [''missing.epub''] [] 20 = Inr ([''missing.epub''], 20)
   \<and> files_to_process (sample_lib [''book.epub'']) [''modify_epub_margins.py'', ''missing.epub'']
         [Path ''book.epub'' \<mapsto> Epub sample_epub] [''missing.epub''] = []
   \<and> (\<exists>msgs. main_cli (sample_lib [''book.epub''])
                 [''modify_epub_margins.py'', ''missing.epub'']
                 [Path ''book.epub'' \<mapsto> Epub sample_epub]
               = (Exit 1, msgs, [Path ''book.epub'' \<mapsto> Epub sample_epub]) \<and> msgs \<noteq> [])"
proof -
  let ?L = "sample_lib [''book.epub'']"
  let ?d = "[Path ''book.epub'' \<mapsto> Epub sample_epub]"
  have m: "py_int ?L ''--margin'' = None" by code_simp
  have a: "py_int ?L ''abc'' = None" by code_simp
  have p: "parse_args ?L [''missing.epub''] [] 20 = Inr ([''missing.epub''], 20)" by code_simp
  have f: "files_to_process ?L [''modify_epub_margins.py'', ''missing.epub''] ?d [''missing.epub''] = []"
    by code_simp
  from cli_fatal_errors [OF m, of 1 "[''modify_epub_margins.py'', ''book.epub'', ''--margin'', ''abc'']" ?d] a
  have 1: "\<exists>msg. main_cli ?L [''modify_epub_margins.py'', ''book.epub'', ''--margin'', ''abc''] ?d
              = (Exit 1, [msg], ?d)"
    by auto
  from cli_fatal_errors [OF m, of _ "[''modify_epub_margins.py'', ''missing.epub'']" ?d
      "[''missing.epub'']" 20] p f
  have 2: "\<exists>msgs. main_cli ?L [''modify_epub_margins.py'', ''missing.epub''] ?d
               = (Exit 1, msgs, ?d) \<and> msgs \<noteq> []"
    by auto
  from m a 1 p f 2 show ?thesis by blast
qed

text \<open>
  Claim C8 as stated, for every invocation with a bad value after \<open>--margin\<close>, fails where
  \<open>--help\<close> comes first: the argument loop prints the usage text and exits with status 0
  before it reads \<open>--margin abc\<close>.
\<close>

theorem help_before_bad_margin_counterexample:
  "py_int (sample_lib [''book.epub'']) ''abc'' = None
   \<and> fst (main_cli (sample_lib [''book.epub''])
             [''modify_epub_margins.py'', ''--help'', ''--margin'', ''abc'']
             [Path ''book.epub'' \<mapsto> Epub sample_epub]) = Exit 0
   \<and> fst (snd (main_cli (sample_lib [''book.epub''])
             [''modify_epub_margins.py'', ''--help'', ''--margin'', ''abc'']
             [Path ''book.epub'' \<mapsto> Epub sample_epub])) = [Usage]"
  by code_simp

section \<open>Properties of the batch loop\<close>

lemma run_batch_count:
  "run_batch process files n d = (n', results, d') \<Longrightarrow>
     map fst results = files \<and> n' = n + length (succeeded results)
     \<and> length (succeeded results) + length (failed results) = length files"
proof (induction files arbitrary: n d n' results d')
  case Nil
  then show ?case by (simp add: succeeded_def failed_def)
next
  case (Cons f files)
  show ?case
  proof (cases "process f d")
    case (Inl e)
    with Cons.prems obtain r where rb: "run_batch process files n d = (n', r, d')"
      and res: "results = (f, Some e) # r"
      by (auto split: prod.splits)
    from Cons.IH [OF rb] res show ?thesis
      by (simp add: succeeded_def failed_def)
  next
    case (Inr d1)
    with Cons.prems obtain r where rb: "run_batch process files (n + 1) d1 = (n', r, d')"
      and res: "results = (f, None) # r"
      by (auto split: prod.splits)
    from Cons.IH [OF rb] res show ?thesis
      by (simp add: succeeded_def failed_def)
  qed
qed

lemma run_batch_one_failure:
  assumes "run_batch process files 0 d = (success_count, results, d')"
    and "length (failed results) = 1"
  shows "map fst results = files" and "success_count = length files - 1"
    and "length (succeeded results) = length files - 1"
  using run_batch_count [OF assms(1)] assms(2) by auto

lemma process_epub_cli_form:
  "(\<lambda>f. process_epub_cli f margin_size) =
     process_with (\<lambda>f. Some (output_path_cli f)) (get_margin_css margin_size)"
  by (intro ext) (simp add: process_with_def process_epub_cli_def)

lemma process_epub_interactive_form:
  "process_epub_interactive mt margin_size mode output_dir =
     process_with (\<lambda>f. output_path_interactive f mode output_dir) (css_for mt margin_size)"
  by (intro ext) (simp add: process_with_def process_epub_interactive_def)

lemma process_with_Inr:
  assumes "process_with dst css f d = Inr d1"
  shows "\<exists>p a out. dst f = Some p \<and> d (Path f) = Some (Epub a) \<and> rewrite_archive css a = Inr out
           \<and> d1 = d(p \<mapsto> Epub out)"
  using assms unfolding process_with_def
  by (auto simp: open_epub_def split: option.splits sum.splits file_data.splits)

lemma run_batch_keeps_epub:
  shows "run_batch (process_with dst css) files n d = (n', results, d') \<Longrightarrow> d q = Some (Epub x) \<Longrightarrow>
     \<exists>y. d' q = Some (Epub y)"
proof (induction files arbitrary: n d n' results d' x)
  case Nil
  then show ?case by simp
next
  case (Cons f files)
  show ?case
  proof (cases "process_with dst css f d")
    case (Inl e)
    with Cons.prems(1) obtain r where "run_batch (process_with dst css) files n d = (n', r, d')"
      by (auto split: prod.splits)
    then show ?thesis using Cons.prems(2) by (rule Cons.IH)
  next
    case (Inr d1)
    with Cons.prems(1) obtain r where rb: "run_batch (process_with dst css) files (n + 1) d1 = (n', r, d')"
      by (auto split: prod.splits)
    from process_with_Inr [OF Inr] obtain p out where "d1 = d(p \<mapsto> Epub out)"
      by blast
    with Cons.prems(2) obtain z where "d1 q = Some (Epub z)"
      by (cases "q = p") auto
    with rb show ?thesis by (rule Cons.IH)
  qed
qed

lemma run_batch_frame:
  shows "run_batch (process_with dst css) files n d = (n', results, d') \<Longrightarrow>
     \<forall>f \<in> set files. dst f \<noteq> Some q \<Longrightarrow> d' q = d q"
proof (induction files arbitrary: n d n' results d')
  case Nil
  then show ?case by simp
next
  case (Cons f files)
  from Cons.prems(2) have rest: "\<forall>g \<in> set files. dst g \<noteq> Some q" and f: "dst f \<noteq> Some q"
    by simp_all
  show ?case
  proof (cases "process_with dst css f d")
    case (Inl e)
    with Cons.prems(1) obtain r where "run_batch (process_with dst css) files n d = (n', r, d')"
      by (auto split: prod.splits)
    then show ?thesis using rest by (rule Cons.IH)
  next
    case (Inr d1)
    with Cons.prems(1) obtain r where rb: "run_batch (process_with dst css) files (n + 1) d1 = (n', r, d')"
      by (auto split: prod.splits)
    from process_with_Inr [OF Inr] obtain p out where "dst f = Some p" "d1 = d(p \<mapsto> Epub out)"
      by blast
    with f have "d1 q = d q" by auto
    moreover from rb rest have "d' q = d1 q" by (rule Cons.IH)
    ultimately show ?thesis by simp
  qed
qed

lemma succeeded_Cons_None: "succeeded ((f, None) # r) = f # succeeded r"
  by (simp add: succeeded_def)

lemma succeeded_Cons_Some: "succeeded ((f, Some e) # r) = succeeded r"
  by (simp add: succeeded_def)

lemma succeeded_subset:
  "run_batch process files n d = (n', results, d') \<Longrightarrow> set (succeeded results) \<subseteq> set files"
  using run_batch_count [of process files n d n' results d']
  by (auto simp: succeeded_def) (metis fst_conv image_eqI set_map)

lemma run_batch_outputs_exist:
  shows "run_batch (process_with dst css) files n d = (n', results, d') \<Longrightarrow> f \<in> set (succeeded results) \<Longrightarrow>
     \<exists>p out. dst f = Some p \<and> d' p = Some (Epub out)"
proof (induction files arbitrary: n d n' results d')
  case Nil
  then show ?case by (simp add: succeeded_def)
next
  case (Cons f0 files)
  show ?case
  proof (cases "process_with dst css f0 d")
    case (Inl e)
    with Cons.prems(1) obtain r where rb: "run_batch (process_with dst css) files n d = (n', r, d')"
      and res: "results = (f0, Some e) # r"
      by (auto split: prod.splits)
    from Cons.prems(2) res have "f \<in> set (succeeded r)"
      by (simp add: succeeded_Cons_Some)
    with rb show ?thesis by (rule Cons.IH)
  next
    case (Inr d1)
    with Cons.prems(1) obtain r where rb: "run_batch (process_with dst css) files (n + 1) d1 = (n', r, d')"
      and res: "results = (f0, None) # r"
      by (auto split: prod.splits)
    from process_with_Inr [OF Inr] obtain p out where
      p: "dst f0 = Some p" "d1 = d(p \<mapsto> Epub out)"
      by blast
    show ?thesis
    proof (cases "f \<in> set (succeeded r)")
      case True
      with rb show ?thesis by (rule Cons.IH)
    next
      case False
      with Cons.prems(2) res have "f = f0"
        by (simp add: succeeded_Cons_None)
      moreover from p have "d1 p = Some (Epub out)" by simp
      with rb obtain y where "d' p = Some (Epub y)"
        using run_batch_keeps_epub by blast
      ultimately show ?thesis using p(1) by blast
    qed
  qed
qed

lemma run_batch_outputs_exact:
  shows "run_batch (process_with dst css) files n d = (n', results, d') \<Longrightarrow> distinct files \<Longrightarrow>
     \<forall>f \<in> set files. \<forall>g \<in> set files. f \<noteq> g \<longrightarrow> dst f \<noteq> Some (Path g) \<and> dst f \<noteq> dst g \<Longrightarrow>
     f \<in> set (succeeded results) \<Longrightarrow>
     \<exists>p a out. dst f = Some p \<and> d (Path f) = Some (Epub a) \<and> rewrite_archive css a = Inr out
       \<and> d' p = Some (Epub out)"
proof (induction files arbitrary: n d n' results d')
  case Nil
  then show ?case by (simp add: succeeded_def)
next
  case (Cons f0 files)
  from Cons.prems(2) have dist: "distinct files" and notin: "f0 \<notin> set files"
    by simp_all
  from Cons.prems(3) have pair:
    "\<forall>f \<in> set files. \<forall>g \<in> set files. f \<noteq> g \<longrightarrow> dst f \<noteq> Some (Path g) \<and> dst f \<noteq> dst g"
    by simp
  from Cons.prems(3) notin have first:
    "\<forall>g \<in> set files. dst f0 \<noteq> Some (Path g) \<and> dst f0 \<noteq> dst g"
    by auto
  show ?case
  proof (cases "process_with dst css f0 d")
    case (Inl e)
    with Cons.prems(1) obtain r where rb: "run_batch (process_with dst css) files n d = (n', r, d')"
      and res: "results = (f0, Some e) # r"
      by (auto split: prod.splits)
    from Cons.prems(4) res have "f \<in> set (succeeded r)"
      by (simp add: succeeded_Cons_Some)
    with rb dist pair show ?thesis by (rule Cons.IH)
  next
    case (Inr d1)
    with Cons.prems(1) obtain r where rb: "run_batch (process_with dst css) files (n + 1) d1 = (n', r, d')"
      and res: "results = (f0, None) # r"
      by (auto split: prod.splits)
    from process_with_Inr [OF Inr] obtain p a out where
      p: "dst f0 = Some p" "d (Path f0) = Some (Epub a)" "rewrite_archive css a = Inr out"
        "d1 = d(p \<mapsto> Epub out)"
      by blast
    show ?thesis
    proof (cases "f \<in> set (succeeded r)")
      case True
      with rb dist pair obtain q b o2 where
        q: "dst f = Some q" "d1 (Path f) = Some (Epub b)" "rewrite_archive css b = Inr o2"
          "d' q = Some (Epub o2)"
        using Cons.IH by blast
      from True rb have "f \<in> set files"
        using succeeded_subset by blast
      with first p(1) have "p \<noteq> Path f" by auto
      with p(4) q(2) have "d (Path f) = Some (Epub b)" by simp
      with q show ?thesis by blast
    next
      case False
      with Cons.prems(4) res have f: "f = f0"
        by (simp add: succeeded_Cons_None)
      from first p(1) have "\<forall>g \<in> set files. dst g \<noteq> Some p"
        by (metis)
      with rb have "d' p = d1 p"
        by (rule run_batch_frame)
      with p f show ?thesis by simp
    qed
  qed
qed


lemma run_batch_append:
  "run_batch process (xs @ ys) n d =
     (case run_batch process xs n d of
        (n1, r1, d1) \<Rightarrow>
          (case run_batch process ys n1 d1 of (n2, r2, d2) \<Rightarrow> (n2, r1 @ r2, d2)))"
  by (induction xs arbitrary: n d) (auto split: sum.splits prod.splits)

lemma disk_after_0: "disk_after process files d 0 = d"
  by (simp add: disk_after_def)

lemma disk_after_all:
  "run_batch process files 0 d = (n, results, d') \<Longrightarrow> disk_after process files d (length files) = d'"
  by (simp add: disk_after_def)

lemma run_batch_nth:
  assumes rb: "run_batch process files 0 d = (n, results, d')" and k: "k < length files"
  shows "(case process (files ! k) (disk_after process files d k) of
            Inr d1 \<Rightarrow>
              results ! k = (files ! k, None) \<and> disk_after process files d (Suc k) = d1
          | Inl e \<Rightarrow>
              results ! k = (files ! k, Some e)
              \<and> disk_after process files d (Suc k) = disk_after process files d k)"
proof -
  let ?f = "files ! k"
  obtain n1 r1 d1 where pre: "run_batch process (take k files) 0 d = (n1, r1, d1)"
    by (cases "run_batch process (take k files) 0 d")
  then have dk: "disk_after process files d k = d1"
    by (simp add: disk_after_def)
  from run_batch_count [OF pre] have "map fst r1 = take k files" by simp
  then have "length r1 = length (take k files)" by (metis length_map)
  with k have len: "length r1 = k" by simp
  obtain n2 r2 d2 where post: "run_batch process (drop (Suc k) files) n1 d1 = (n2, r2, d2)"
    by (cases "run_batch process (drop (Suc k) files) n1 d1")
  have files: "files = take k files @ ?f # drop (Suc k) files"
    using k by (rule id_take_nth_drop)
  have suc: "take (Suc k) files = take k files @ [?f]"
    using k by (rule take_Suc_conv_app_nth)
  show ?thesis
  proof (cases "process ?f d1")
    case (Inl e)
    obtain n3 r3 d3 where rest: "run_batch process (drop (Suc k) files) n1 d1 = (n3, r3, d3)"
      by (cases "run_batch process (drop (Suc k) files) n1 d1")
    have "run_batch process (take k files @ ?f # drop (Suc k) files) 0 d
            = (n3, r1 @ (?f, Some e) # r3, d3)"
      by (simp add: run_batch_append pre Inl rest)
    with files rb have "results = r1 @ (?f, Some e) # r3" by simp
    with len have r: "results ! k = (?f, Some e)" by (simp add: nth_append)
    have "run_batch process (take k files @ [?f]) 0 d = (n1, r1 @ [(?f, Some e)], d1)"
      by (simp add: run_batch_append pre Inl)
    with suc have "disk_after process files d (Suc k) = d1"
      by (simp add: disk_after_def)
    with r Inl dk show ?thesis by simp
  next
    case (Inr d1')
    obtain n3 r3 d3 where rest: "run_batch process (drop (Suc k) files) (Suc n1) d1' = (n3, r3, d3)"
      by (cases "run_batch process (drop (Suc k) files) (Suc n1) d1'")
    have "run_batch process (take k files @ ?f # drop (Suc k) files) 0 d
            = (n3, r1 @ (?f, None) # r3, d3)"
      by (simp add: run_batch_append pre Inr rest)
    with files rb have "results = r1 @ (?f, None) # r3" by simp
    with len have r: "results ! k = (?f, None)" by (simp add: nth_append)
    have "run_batch process (take k files @ [?f]) 0 d = (Suc n1, r1 @ [(?f, None)], d1')"
      by (simp add: run_batch_append pre Inr)
    with suc have "disk_after process files d (Suc k) = d1'"
      by (simp add: disk_after_def)
    with r Inr dk show ?thesis by simp
  qed
qed

lemma main_cli_batch:
  assumes p: "parse_args L (tl argv) [] 20 = Inr (epub_files, margin_size)"
    and f: "files_to_process L argv d epub_files = files" and ne: "files \<noteq> []"
    and rb: "run_batch (\<lambda>f. process_epub_cli f margin_size) files 0 d = (success_count, results, d')"
  shows "\<exists>msgs. main_cli L argv d = (Return, msgs, d')
           \<and> last msgs = Summary success_count (length files)
           \<and> (\<forall>f e. (f, Some e) \<in> set results \<longrightarrow> ErrProcessing f e \<in> set msgs)"
proof -
  from f ne obtain found msgs1 where r: "resolve_files L argv epub_files = Inr (found, msgs1)"
    by (cases "resolve_files L argv epub_files") (auto simp: files_to_process_def)
  obtain unique_files msgs2 where fe: "filter_existing L d (remdups found) = (unique_files, msgs2)"
    by (cases "filter_existing L d (remdups found)")
  from f r fe have u: "unique_files = files"
    by (simp add: files_to_process_def)
  have found: "found \<noteq> []"
  proof
    assume "found = []"
    with fe u ne show False by simp
  qed
  let ?msgs = "msgs1 @ msgs2 @ [WillProcess (length files) margin_size files]
                 @ concat (map (cli_report margin_size) results)
                 @ [Summary success_count (length files)]"
  have m: "main_cli L argv d = (Return, ?msgs, d')"
    using p r fe u found ne rb by (simp add: main_cli_def)
  have "ErrProcessing g e \<in> set ?msgs" if "(g, Some e) \<in> set results" for g e
  proof -
    have "ErrProcessing g e \<in> set (cli_report margin_size (g, Some e))" by simp
    with that have "ErrProcessing g e \<in> set (concat (map (cli_report margin_size) results))"
      by (metis (no_types, lifting) UN_I imageI set_concat set_map)
    then show ?thesis by simp
  qed
  with m show ?thesis by auto
qed

lemma confirm_and_process_batch:
  assumes a: "affirms L confirm"
    and rb: "run_batch (process_epub_interactive mt margin_size mode output_dir) files 0 d
               = (success_count, results, d')"
  shows "\<exists>ev c rest. confirm_and_process L mt margin_size mode output_dir files (confirm # inputs) d
             = (ev, c, rest, d')
           \<and> Output (Processed success_count (length files)) \<in> set ev
           \<and> (\<forall>f e. (f, Some e) \<in> set results \<longrightarrow> Output (ProcessingFailed f e) \<in> set ev)"
proof -
  let ?ev = "Input AskConfirmStart confirm
               # concat (map (batch_events mt margin_size mode) results)
               @ [Output (Processed success_count (length files))]
               @ (if mode = Folder \<and> 0 < success_count then [Output SavedToFolder] else [])"
  have fails: "Output (ProcessingFailed g e) \<in> set ?ev" if "(g, Some e) \<in> set results" for g e
  proof -
    have "Output (ProcessingFailed g e) \<in> set (batch_events mt margin_size mode (g, Some e))"
      by simp
    with that have "Output (ProcessingFailed g e)
        \<in> set (concat (map (batch_events mt margin_size mode) results))"
      by (metis (no_types, lifting) UN_I imageI set_concat set_map)
    then show ?thesis by simp
  qed
  have count: "Output (Processed success_count (length files)) \<in> set ?ev" by simp
  show ?thesis
  proof (cases inputs)
    case Nil
    then have "confirm_and_process L mt margin_size mode output_dir files (confirm # inputs) d
        = (?ev, Crash EOFError, [], d')"
      using a rb by (simp add: confirm_and_process_def Let_def)
    with fails count show ?thesis by blast
  next
    case (Cons another inputs2)
    show ?thesis
    proof (cases "affirms L another")
      case True
      with Cons have "confirm_and_process L mt margin_size mode output_dir files (confirm # inputs) d
          = (?ev @ [Input AskContinue another], Again, inputs2, d')"
        using a rb by (simp add: confirm_and_process_def Let_def)
      moreover have "Output (Processed success_count (length files))
          \<in> set (?ev @ [Input AskContinue another])"
        using count by simp
      moreover have "\<forall>g e. (g, Some e) \<in> set results \<longrightarrow>
          Output (ProcessingFailed g e) \<in> set (?ev @ [Input AskContinue another])"
        using fails by simp
      ultimately show ?thesis by blast
    next
      case False
      with Cons have "confirm_and_process L mt margin_size mode output_dir files (confirm # inputs) d
          = (?ev @ [Input AskContinue another, Output WorkFinished], Stop, inputs2, d')"
        using a rb by (simp add: confirm_and_process_def Let_def)
      moreover have "Output (Processed success_count (length files))
          \<in> set (?ev @ [Input AskContinue another, Output WorkFinished])"
        using count by simp
      moreover have "\<forall>g e. (g, Some e) \<in> set results \<longrightarrow>
          Output (ProcessingFailed g e) \<in> set (?ev @ [Input AskContinue another, Output WorkFinished])"
        using fails by simp
      ultimately show ?thesis by blast
    qed
  qed
qed


text \<open>
  Claim C7. The batch loop of both programs tries every selected file in turn, each on
  the disk that the files before it left: a file on which \<open>process_epub\<close> raises is
  recorded with its exception and leaves the disk as it was, and the loop goes on. The
  count it reports is the number of files that did not raise, so it is \<open>N - 1\<close> when
  exactly one of \<open>N\<close> files fails. Every file that succeeded has an archive at its output
  path when the loop ends, and that archive is the rewriting of its source when the
  files are distinct and no output path is the source or the output path of another
  file. \<open>main\<close> of the command-line program then returns after printing the count and
  the total, and has printed the error of every file that failed; the interactive
  program does the same.
\<close>

theorem batch_continues_after_failure:
  "(run_batch process files 0 d = (success_count, results, d') \<longrightarrow>
       map fst results = files
       \<and> success_count = length (succeeded results)
       \<and> length (succeeded results) + length (failed results) = length files
       \<and> (length (failed results) = 1 \<longrightarrow> success_count = length files - 1)
       \<and> disk_after process files d 0 = d
       \<and> disk_after process files d (length files) = d'
       \<and> (\<forall>k < length files.
            case process (files ! k) (disk_after process files d k) of
              Inr d1 \<Rightarrow>
                results ! k = (files ! k, None) \<and> disk_after process files d (Suc k) = d1
            | Inl e \<Rightarrow>
                results ! k = (files ! k, Some e)
                \<and> disk_after process files d (Suc k) = disk_after process files d k))
   \<and> (run_batch (\<lambda>f. process_epub_cli f margin_size) files 0 d = (success_count, results, d') \<longrightarrow>
        (\<forall>f \<in> set (succeeded results). \<exists>out. d' (output_path_cli f) = Some (Epub out))
        \<and> (distinct files
             \<and> (\<forall>f \<in> set files. \<forall>g \<in> set files. f \<noteq> g \<longrightarrow>
                   output_path_cli f \<noteq> Path g \<and> output_path_cli f \<noteq> output_path_cli g) \<longrightarrow>
            (\<forall>f \<in> set (succeeded results).
               \<exists>a out. d (Path f) = Some (Epub a)
                 \<and> rewrite_archive (get_margin_css margin_size) a = Inr out
                 \<and> d' (output_path_cli f) = Some (Epub out))))
   \<and> (run_batch (process_epub_interactive mt margin_size mode output_dir) files 0 d
         = (success_count, results, d') \<longrightarrow>
        (\<forall>f \<in> set (succeeded results).
           \<exists>p out. output_path_interactive f mode output_dir = Some p \<and> d' p = Some (Epub out))
        \<and> (distinct files
             \<and> (\<forall>f \<in> set files. \<forall>g \<in> set files. f \<noteq> g \<longrightarrow>
                   output_path_interactive f mode output_dir \<noteq> Some (Path g)
                   \<and> output_path_interactive f mode output_dir
                       \<noteq> output_path_interactive g mode output_dir) \<longrightarrow>
            (\<forall>f \<in> set (succeeded results).
               \<exists>p a out. output_path_interactive f mode output_dir = Some p
                 \<and> d (Path f) = Some (Epub a)
                 \<and> rewrite_archive (css_for mt margin_size) a = Inr out
                 \<and> d' p = Some (Epub out))))
   \<and> (parse_args L (tl argv) [] 20 = Inr (epub_files, margin_size)
        \<and> files_to_process L argv d epub_files = files \<and> files \<noteq> []
        \<and> run_batch (\<lambda>f. process_epub_cli f margin_size) files 0 d = (success_count, results, d')
        \<longrightarrow>
        (\<exists>msgs. main_cli L argv d = (Return, msgs, d')
           \<and> last msgs = Summary success_count (length files)
           \<and> (\<forall>f e. (f, Some e) \<in> set results \<longrightarrow> ErrProcessing f e \<in> set msgs)))
   \<and> (affirms L confirm
        \<and> run_batch (process_epub_interactive mt margin_size mode output_dir) files 0 d
            = (success_count, results, d')
        \<longrightarrow>
        (\<exists>ev c rest.
           confirm_and_process L mt margin_size mode output_dir files (confirm # inputs) d
             = (ev, c, rest, d')
           \<and> Output (Processed success_count (length files)) \<in> set ev
           \<and> (\<forall>f e. (f, Some e) \<in> set results \<longrightarrow> Output (ProcessingFailed f e) \<in> set ev)))"
proof (intro conjI impI)
  assume rb: "run_batch process files 0 d = (success_count, results, d')"
  from run_batch_count [OF rb]
  show "map fst results = files" and c: "success_count = length (succeeded results)"
    and t: "length (succeeded results) + length (failed results) = length files"
    by simp_all
  show "success_count = length files - 1" if "length (failed results) = 1"
    using c t that by simp
  show "disk_after process files d 0 = d"
    by (rule disk_after_0)
  show "disk_after process files d (length files) = d'"
    using rb by (rule disk_after_all)
  show "\<forall>k < length files.
            case process (files ! k) (disk_after process files d k) of
              Inr d1 \<Rightarrow>
                results ! k = (files ! k, None) \<and> disk_after process files d (Suc k) = d1
            | Inl e \<Rightarrow>
                results ! k = (files ! k, Some e)
                \<and> disk_after process files d (Suc k) = disk_after process files d k"
    using run_batch_nth [OF rb] by blast
next
  assume rb: "run_batch (\<lambda>f. process_epub_cli f margin_size) files 0 d = (success_count, results, d')"
  then have rb': "run_batch (process_with (\<lambda>f. Some (output_path_cli f)) (get_margin_css margin_size))
      files 0 d = (success_count, results, d')"
    by (simp add: process_epub_cli_form)
  show "\<forall>f \<in> set (succeeded results). \<exists>out. d' (output_path_cli f) = Some (Epub out)"
    using run_batch_outputs_exist [OF rb'] by auto
next
  fix f
  assume rb: "run_batch (\<lambda>f. process_epub_cli f margin_size) files 0 d = (success_count, results, d')"
    and h: "distinct files
             \<and> (\<forall>f \<in> set files. \<forall>g \<in> set files. f \<noteq> g \<longrightarrow>
                   output_path_cli f \<noteq> Path g \<and> output_path_cli f \<noteq> output_path_cli g)"
  from rb have rb': "run_batch (process_with (\<lambda>f. Some (output_path_cli f)) (get_margin_css margin_size))
      files 0 d = (success_count, results, d')"
    by (simp add: process_epub_cli_form)
  from h have p: "\<forall>f \<in> set files. \<forall>g \<in> set files. f \<noteq> g \<longrightarrow>
      Some (output_path_cli f) \<noteq> Some (Path g) \<and> Some (output_path_cli f) \<noteq> Some (output_path_cli g)"
    by simp
  from h have dist: "distinct files" by simp
  show "\<forall>f \<in> set (succeeded results).
               \<exists>a out. d (Path f) = Some (Epub a)
                 \<and> rewrite_archive (get_margin_css margin_size) a = Inr out
                 \<and> d' (output_path_cli f) = Some (Epub out)"
    using run_batch_outputs_exact [OF rb' dist p] by auto
next
  assume rb: "run_batch (process_epub_interactive mt margin_size mode output_dir) files 0 d
         = (success_count, results, d')"
  then have rb': "run_batch (process_with (\<lambda>f. output_path_interactive f mode output_dir)
      (css_for mt margin_size)) files 0 d = (success_count, results, d')"
    by (simp add: process_epub_interactive_form)
  show "\<forall>f \<in> set (succeeded results).
           \<exists>p out. output_path_interactive f mode output_dir = Some p \<and> d' p = Some (Epub out)"
    using run_batch_outputs_exist [OF rb'] by auto
next
  assume rb: "run_batch (process_epub_interactive mt margin_size mode output_dir) files 0 d
         = (success_count, results, d')"
    and h: "distinct files
             \<and> (\<forall>f \<in> set files. \<forall>g \<in> set files. f \<noteq> g \<longrightarrow>
                   output_path_interactive f mode output_dir \<noteq> Some (Path g)
                   \<and> output_path_interactive f mode output_dir
                       \<noteq> output_path_interactive g mode output_dir)"
  from rb have rb': "run_batch (process_with (\<lambda>f. output_path_interactive f mode output_dir)
      (css_for mt margin_size)) files 0 d = (success_count, results, d')"
    by (simp add: process_epub_interactive_form)
  from h have dist: "distinct files" and p: "\<forall>f \<in> set files. \<forall>g \<in> set files. f \<noteq> g \<longrightarrow>
                   output_path_interactive f mode output_dir \<noteq> Some (Path g)
                   \<and> output_path_interactive f mode output_dir
                       \<noteq> output_path_interactive g mode output_dir"
    by simp_all
  show "\<forall>f \<in> set (succeeded results).
               \<exists>p a out. output_path_interactive f mode output_dir = Some p
                 \<and> d (Path f) = Some (Epub a)
                 \<and> rewrite_archive (css_for mt margin_size) a = Inr out
                 \<and> d' p = Some (Epub out)"
    using run_batch_outputs_exact [OF rb' dist p] by auto
next
  assume "parse_args L (tl argv) [] 20 = Inr (epub_files, margin_size)
        \<and> files_to_process L argv d epub_files = files \<and> files \<noteq> []
        \<and> run_batch (\<lambda>f. process_epub_cli f margin_size) files 0 d = (success_count, results, d')"
  then show "\<exists>msgs. main_cli L argv d = (Return, msgs, d')
           \<and> last msgs = Summary success_count (length files)
           \<and> (\<forall>f e. (f, Some e) \<in> set results \<longrightarrow> ErrProcessing f e \<in> set msgs)"
    using main_cli_batch [of L argv epub_files margin_size d files success_count results d']
    by blast
next
  assume "affirms L confirm
        \<and> run_batch (process_epub_interactive mt margin_size mode output_dir) files 0 d
            = (success_count, results, d')"
  then show "\<exists>ev c rest.
           confirm_and_process L mt margin_size mode output_dir files (confirm # inputs) d
             = (ev, c, rest, d')
           \<and> Output (Processed success_count (length files)) \<in> set ev
           \<and> (\<forall>f e. (f, Some e) \<in> set results \<longrightarrow> Output (ProcessingFailed f e) \<in> set ev)"
    using confirm_and_process_batch
      [of L confirm mt margin_size mode output_dir files d success_count results d' inputs]
    by blast
qed

lemma sample_batch_count:
  "fst (run_batch (\<lambda>f. process_epub_cli f 20) [''a.epub'', ''b.epub'', ''c.epub''] 0 not_a_zip_disk) = 2"
  by code_simp

lemma sample_batch_results:
  "fst (snd (run_batch (\<lambda>f. process_epub_cli f 20) [''a.epub'', ''b.epub'', ''c.epub''] 0
     not_a_zip_disk)) = [(''a.epub'', None), (''b.epub'', Some BadZipFile), (''c.epub'', None)]"
  by code_simp

theorem batch_continues_after_failure_witness:
  "\<exists>d'. run_batch (\<lambda>f. process_epub_cli f 20) [''a.epub'', ''b.epub'', ''c.epub''] 0 not_a_zip_disk
          = (2, [(''a.epub'', None), (''b.epub'', Some BadZipFile), (''c.epub'', None)], d')
        \<and> failed [(''a.epub'', None), (''b.epub'', Some BadZipFile), (''c.epub'', None)] = [''b.epub'']
        \<and> (2::nat) = length [''a.epub'', ''b.epub'', ''c.epub''] - 1
        \<and> (\<exists>out. d' (output_path_cli ''a.epub'') = Some (Epub out))
        \<and> (\<exists>out. d' (output_path_cli ''c.epub'') = Some (Epub out))"
proof -
  let ?files = "[''a.epub'', ''b.epub'', ''c.epub'']"
  let ?results = "[(''a.epub'', None), (''b.epub'', Some BadZipFile), (''c.epub'', None)]"
  obtain n r d' where rb0: "run_batch (\<lambda>f. process_epub_cli f 20) ?files 0 not_a_zip_disk = (n, r, d')"
    by (cases "run_batch (\<lambda>f. process_epub_cli f 20) ?files 0 not_a_zip_disk")
  with sample_batch_count sample_batch_results
  have rb: "run_batch (\<lambda>f. process_epub_cli f 20) ?files 0 not_a_zip_disk = (2, ?results, d')"
    by simp
  have f: "failed ?results = [''b.epub'']" by (simp add: failed_def)
  have s: "succeeded ?results = [''a.epub'', ''c.epub'']" by (simp add: succeeded_def)
  note t = batch_continues_after_failure
    [where process = "\<lambda>f. process_epub_cli f 20" and files = ?files and d = not_a_zip_disk
       and success_count = 2 and results = ?results and d' = d' and margin_size = 20]
  from t rb f have c: "(2::nat) = length ?files - 1" by simp
  from t rb have "\<forall>f \<in> set (succeeded ?results). \<exists>out. d' (output_path_cli f) = Some (Epub out)"
    by blast
  with s have o: "(\<exists>out. d' (output_path_cli ''a.epub'') = Some (Epub out))
        \<and> (\<exists>out. d' (output_path_cli ''c.epub'') = Some (Epub out))"
    by simp
  from rb f c o show ?thesis by blast
qed

section \<open>Properties of the interactive program\<close>

subsection \<open>The monitor accepts every run\<close>

lemma gate_run_append:
  "gate_run L g (a @ b) = (case gate_run L g a of None \<Rightarrow> None | Some g' \<Rightarrow> gate_run L g' b)"
  by (induction a arbitrary: g) (auto split: option.splits)

lemma gate_ask_modification_type:
  "ask_modification_type L inputs = (ev, r, rest) \<Longrightarrow>
     gate_run L g ev = Some (if ev = [] then g else NotAsked)"
proof (induction inputs arbitrary: ev r rest g)
  case Nil
  then show ?case by simp
next
  case (Cons l ls)
  obtain ev' r' rest' where rec: "ask_modification_type L ls = (ev', r', rest')"
    by (cases "ask_modification_type L ls")
  from Cons.IH [OF rec, of NotAsked] have "gate_run L NotAsked ev' = Some NotAsked"
    by simp
  with Cons.prems rec show ?case
    by (auto simp: Let_def split: if_splits)
qed

lemma ask_modification_type_answered:
  "ask_modification_type L inputs = (ev, Inr x, rest) \<Longrightarrow> ev \<noteq> []"
  by (cases inputs) (auto simp: Let_def split: if_splits prod.splits)

lemma gate_ask_margin_size:
  "ask_margin_size L inputs = (ev, r, rest) \<Longrightarrow> g \<noteq> Declined \<Longrightarrow> gate_run L g ev = Some g"
proof (induction inputs arbitrary: ev r rest)
  case Nil
  then show ?case by simp
next
  case (Cons l ls)
  obtain ev' r' rest' where rec: "ask_margin_size L ls = (ev', r', rest')"
    by (cases "ask_margin_size L ls")
  from Cons.IH [OF rec Cons.prems(2)] Cons.prems rec show ?case
    by (auto simp: Let_def split: if_splits option.splits)
qed

lemma gate_ask_output_mode:
  "ask_output_mode L inputs = (ev, r, rest) \<Longrightarrow> g \<noteq> Declined \<Longrightarrow> gate_run L g ev = Some g"
proof (induction inputs arbitrary: ev r rest)
  case Nil
  then show ?case by simp
next
  case (Cons l ls)
  obtain ev' r' rest' where rec: "ask_output_mode L ls = (ev', r', rest')"
    by (cases "ask_output_mode L ls")
  from Cons.IH [OF rec Cons.prems(2)] Cons.prems rec show ?case
    by (auto simp: Let_def split: if_splits)
qed

lemma gate_ask_file_selection:
  "ask_file_selection L epub_files inputs = (ev, r, rest) \<Longrightarrow> g \<noteq> Declined \<Longrightarrow>
     gate_run L g ev = Some g"
proof (induction inputs arbitrary: ev r rest)
  case Nil
  then show ?case by simp
next
  case (Cons l ls)
  obtain ev' r' rest' where rec: "ask_file_selection L epub_files ls = (ev', r', rest')"
    by (cases "ask_file_selection L epub_files ls")
  from Cons.IH [OF rec Cons.prems(2)] Cons.prems rec show ?case
    by (auto simp: Let_def split: if_splits option.splits)
qed

lemma gate_batch_events:
  "g \<noteq> Declined \<Longrightarrow> (mode = Replace \<longrightarrow> g = Confirmed) \<Longrightarrow>
     gate_run L g (concat (map (batch_events mt margin_size mode) results)) = Some g"
proof (induction results)
  case Nil
  then show ?case by simp
next
  case (Cons x results)
  obtain f r where x: "x = (f, r)" by (cases x)
  from Cons show ?case
    by (cases r) (auto simp: x)
qed

lemma gate_confirm_and_process:
  assumes cp: "confirm_and_process L mt margin_size mode output_dir sel inputs d = (ev, c, rest, d')"
    and g: "g \<noteq> Declined" "mode = Replace \<longrightarrow> g = Confirmed"
  shows "gate_run L g ev = Some g"
proof (cases inputs)
  case Nil
  with cp show ?thesis by (auto simp: confirm_and_process_def)
next
  case (Cons confirm inputs1)
  show ?thesis
  proof (cases "affirms L confirm")
    case False
    with cp Cons g show ?thesis by (auto simp: confirm_and_process_def)
  next
    case True
    obtain n results d1 where rb:
      "run_batch (process_epub_interactive mt margin_size mode output_dir) sel 0 d = (n, results, d1)"
      by (cases "run_batch (process_epub_interactive mt margin_size mode output_dir) sel 0 d")
    obtain saved where saved: "saved = (if mode = Folder \<and> 0 < n then [Output SavedToFolder] else [])"
      by simp
    then have s: "gate_run L g saved = Some g" by simp
    let ?ev = "Input AskConfirmStart confirm
                 # concat (map (batch_events mt margin_size mode) results)
                 @ [Output (Processed n (length sel))] @ saved"
    note b = gate_batch_events [OF g, of L mt margin_size results]
    have e: "gate_run L g ?ev = Some g"
      using g(1) b s by (simp add: gate_run_append)
    show ?thesis
    proof (cases inputs1)
      case Nil
      with cp Cons True rb saved have "ev = ?ev"
        by (simp add: confirm_and_process_def Let_def)
      with e show ?thesis by simp
    next
      case another: (Cons another inputs2)
      show ?thesis
      proof (cases "affirms L another")
        case False
        with cp Cons True rb saved another
        have "ev = ?ev @ [Input AskContinue another, Output WorkFinished]"
          by (simp add: confirm_and_process_def Let_def)
        then have "gate_run L g ev = gate_run L g [Input AskContinue another, Output WorkFinished]"
          using e by (simp only: gate_run_append option.case)
        with g(1) show ?thesis by simp
      next
        case yes: True
        with cp Cons True rb saved another
        have "ev = ?ev @ [Input AskContinue another]"
          by (simp add: confirm_and_process_def Let_def)
        then have "gate_run L g ev = gate_run L g [Input AskContinue another]"
          using e by (simp only: gate_run_append option.case)
        with g(1) show ?thesis by simp
      qed
    qed
  qed
qed

lemma gate_select_and_process:
  assumes "select_and_process L epub_files mt margin_size mode inputs d = (ev, c, rest, d')"
    and g: "g \<noteq> Declined" "mode = Replace \<longrightarrow> g = Confirmed"
  shows "gate_run L g ev = Some g"
proof (cases "make_output_dir mode d")
  case (Inl e)
  with assms(1) show ?thesis by (auto simp: select_and_process_def)
next
  case (Inr res)
  obtain output_dir ev0 where res: "res = (output_dir, ev0)" by (cases res)
  from Inr res have e0: "gate_run L g ev0 = Some g"
    by (auto simp: make_output_dir_def split: output_mode.splits if_splits)
  obtain ev1 r1 inputs1 where a: "ask_file_selection L epub_files inputs = (ev1, r1, inputs1)"
    by (cases "ask_file_selection L epub_files inputs")
  from a g(1) have e1: "gate_run L g ev1 = Some g" by (rule gate_ask_file_selection)
  show ?thesis
  proof (cases r1)
    case (Inl e)
    with assms(1) Inr res a e0 e1 show ?thesis
      by (auto simp: select_and_process_def gate_run_append)
  next
    case r: (Inr sel)
    show ?thesis
    proof (cases sel)
      case None
      with assms(1) Inr res a r e0 e1 show ?thesis
        by (auto simp: select_and_process_def gate_run_append)
    next
      case (Some selected_files)
      obtain ev2 c2 inputs2 d2 where cp:
        "confirm_and_process L mt margin_size mode output_dir selected_files inputs1 d
           = (ev2, c2, inputs2, d2)"
        by (cases "confirm_and_process L mt margin_size mode output_dir selected_files inputs1 d")
      from cp g have "gate_run L g ev2 = Some g" by (rule gate_confirm_and_process)
      with assms(1) Inr res a r Some cp e0 e1 show ?thesis
        by (auto simp: select_and_process_def gate_run_append)
    qed
  qed
qed

lemma gate_warn_and_continue:
  assumes "warn_and_continue L epub_files mt margin_size mode inputs d = (ev, c, rest, d')"
  shows "gate_run L NotAsked ev \<noteq> None"
proof (cases "mode = Replace")
  case False
  with assms have sel: "select_and_process L epub_files mt margin_size mode inputs d = (ev, c, rest, d')"
    by (simp add: warn_and_continue_def)
  have "gate_run L NotAsked ev = Some NotAsked"
    by (rule gate_select_and_process [OF sel]) (simp_all add: False)
  then show ?thesis by simp
next
  case True
  show ?thesis
  proof (cases inputs)
    case Nil
    with assms True show ?thesis by (auto simp: warn_and_continue_def)
  next
    case (Cons confirm_replace inputs1)
    show ?thesis
    proof (cases "affirms_overwrite L confirm_replace")
      case False
      with assms True Cons show ?thesis by (auto simp: warn_and_continue_def)
    next
      case yes: True
      obtain ev1 c1 rest1 d1 where s:
        "select_and_process L epub_files mt margin_size mode inputs1 d = (ev1, c1, rest1, d1)"
        by (cases "select_and_process L epub_files mt margin_size mode inputs1 d")
      then have "gate_run L Confirmed ev1 = Some Confirmed"
        by (rule gate_select_and_process) simp_all
      with assms True Cons yes s show ?thesis by (auto simp: warn_and_continue_def)
    qed
  qed
qed

lemma gate_menu_round:
  assumes "menu_round L epub_files inputs d = (ev, c, rest, d')"
  shows "gate_run L g ev \<noteq> None"
proof -
  obtain ev1 r1 inputs1 where a1: "ask_modification_type L inputs = (ev1, r1, inputs1)"
    by (cases "ask_modification_type L inputs")
  note e1 = gate_ask_modification_type [OF a1, of g]
  show ?thesis
  proof (cases r1)
    case (Inl e)
    with assms a1 e1 show ?thesis by (auto simp: menu_round_def)
  next
    case (Inr choice)
    show ?thesis
    proof (cases choice)
      case None
      with assms a1 Inr e1 show ?thesis by (auto simp: menu_round_def gate_run_append)
    next
      case (Some mt)
      from a1 Inr have "ev1 \<noteq> []" by (auto dest: ask_modification_type_answered)
      with e1 have g1: "gate_run L g ev1 = Some NotAsked" by simp
      obtain ev2 r2 inputs2 where a2:
        "(if mt = Margins \<or> mt = Both then ask_margin_size L inputs1 else ([], Inr 20, inputs1))
           = (ev2, r2, inputs2)"
        by (metis prod_cases3)
      have g2: "gate_run L NotAsked ev2 = Some NotAsked"
        using a2 by (auto split: if_splits dest: gate_ask_margin_size [where g = NotAsked])
      show ?thesis
      proof (cases r2)
        case (Inl e)
        with assms a1 Inr Some a2 g1 g2 show ?thesis
          by (auto simp: menu_round_def gate_run_append)
      next
        case m: (Inr margin_size)
        obtain ev3 r3 inputs3 where a3: "ask_output_mode L inputs2 = (ev3, r3, inputs3)"
          by (cases "ask_output_mode L inputs2")
        then have g3: "gate_run L NotAsked ev3 = Some NotAsked"
          by (rule gate_ask_output_mode) simp
        show ?thesis
        proof (cases r3)
          case (Inl e)
          with assms a1 Inr Some a2 m a3 g1 g2 g3 show ?thesis
            by (auto simp: menu_round_def gate_run_append)
        next
          case o: (Inr om)
          show ?thesis
          proof (cases om)
            case None
            with assms a1 Inr Some a2 m a3 o g1 g2 g3 show ?thesis
              by (auto simp: menu_round_def gate_run_append)
          next
            case mode: (Some mode)
            obtain ev4 c4 inputs4 d4 where w:
              "warn_and_continue L epub_files mt margin_size mode inputs3 d = (ev4, c4, inputs4, d4)"
              by (cases "warn_and_continue L epub_files mt margin_size mode inputs3 d")
            then have "gate_run L NotAsked ev4 \<noteq> None" by (rule gate_warn_and_continue)
            with assms a1 Inr Some a2 m a3 o mode w g1 g2 g3 show ?thesis
              by (auto simp: menu_round_def gate_run_append)
          qed
        qed
      qed
    qed
  qed
qed

lemma gate_main_loop: "\<forall>g. gate_run L g (fst (main_loop L epub_files inputs d)) \<noteq> None"
proof (induction L epub_files inputs d rule: main_loop.induct)
  case (1 L epub_files inputs d)
  obtain ev c rest d' where m: "menu_round L epub_files inputs d = (ev, c, rest, d')"
    by (cases "menu_round L epub_files inputs d")
  show ?case
  proof
    fix g
    from m obtain g1 where g1: "gate_run L g ev = Some g1"
      using gate_menu_round [of L epub_files inputs d ev c rest d' g] by auto
    show "gate_run L g (fst (main_loop L epub_files inputs d)) \<noteq> None"
    proof (cases c)
      case Again
      obtain ev' res d'' where ml: "main_loop L epub_files rest d' = (ev', res, d'')"
        by (cases "main_loop L epub_files rest d'")
      from "1.IH" [OF m [symmetric]] Again ml
      have "gate_run L g1 ev' \<noteq> None"
        by (metis fst_conv)
      moreover have "main_loop L epub_files inputs d = (ev @ ev', res, d'')"
        using m Again ml by (simp add: main_loop.simps [of L epub_files inputs d])
      ultimately show ?thesis
        using g1 by (simp add: gate_run_append)
    next
      case Stop
      with m g1 show ?thesis
        by (simp add: main_loop.simps [of L epub_files inputs d])
    next
      case (Crash e)
      with m g1 show ?thesis
        by (simp add: main_loop.simps [of L epub_files inputs d])
    qed
  qed
qed

lemma gate_main_interactive: "gate_run L NotAsked (fst (main_interactive L inputs d)) \<noteq> None"
  using gate_main_loop [of L "get_epub_files_interactive L" inputs d]
  by (simp add: main_interactive_def Let_def)


subsection \<open>What the monitor's verdict says of the events\<close>

lemma gate_step_Confirmed:
  assumes "gate_step L g e = Some Confirmed"
  shows "(\<exists>a. e = Input AskConfirmReplace a \<and> affirms_overwrite L a)
         \<or> (g = Confirmed \<and> \<not> is_menu_prompt e)"
proof (cases e)
  case (Input p answer)
  with assms show ?thesis by (auto split: if_splits)
next
  case (Output n)
  with assms show ?thesis by simp
next
  case (Process f mt m mode)
  with assms show ?thesis by (auto split: if_splits)
qed

lemma confirmed_has_answer:
  "gate_run L g ev = Some Confirmed \<Longrightarrow> g \<noteq> Confirmed \<Longrightarrow>
     \<exists>pre1 a pre2. ev = pre1 @ Input AskConfirmReplace a # pre2 \<and> affirms_overwrite L a
       \<and> \<not> list_ex is_menu_prompt pre2"
proof (induction ev rule: rev_induct)
  case Nil
  then show ?case by simp
next
  case (snoc e ev)
  from snoc.prems(1) obtain g0 where g0: "gate_run L g ev = Some g0"
    and st: "gate_step L g0 e = Some Confirmed"
    by (auto simp: gate_run_append split: option.splits)
  from gate_step_Confirmed [OF st] show ?case
  proof
    assume "\<exists>a. e = Input AskConfirmReplace a \<and> affirms_overwrite L a"
    then obtain a where "e = Input AskConfirmReplace a" "affirms_overwrite L a" by blast
    then have "ev @ [e] = ev @ Input AskConfirmReplace a # [] \<and> affirms_overwrite L a
        \<and> \<not> list_ex is_menu_prompt []"
      by simp
    then show ?thesis by blast
  next
    assume c: "g0 = Confirmed \<and> \<not> is_menu_prompt e"
    with g0 snoc.IH snoc.prems(2) obtain pre1 a pre2 where
      p: "ev = pre1 @ Input AskConfirmReplace a # pre2" "affirms_overwrite L a"
        "\<not> list_ex is_menu_prompt pre2"
      by blast
    with c have "ev @ [e] = pre1 @ Input AskConfirmReplace a # (pre2 @ [e])
        \<and> affirms_overwrite L a \<and> \<not> list_ex is_menu_prompt (pre2 @ [e])"
      by simp
    then show ?thesis by blast
  qed
qed

lemma process_replace_needs_confirmed:
  assumes "gate_run L g (pre @ Process f mt m Replace # post) \<noteq> None"
  shows "gate_run L g pre = Some Confirmed"
proof (cases "gate_run L g pre")
  case None
  with assms show ?thesis by (simp add: gate_run_append)
next
  case (Some g0)
  have "gate_step L g0 (Process f mt m Replace) \<noteq> None"
  proof
    assume "gate_step L g0 (Process f mt m Replace) = None"
    then have "gate_run L g0 (Process f mt m Replace # post) = None" by simp
    with Some assms show False by (simp add: gate_run_append)
  qed
  then have "g0 = Confirmed" by (simp split: if_splits)
  with Some show ?thesis by simp
qed

lemma declined_then_outputs:
  "gate_run L Declined post \<noteq> None \<Longrightarrow>
     list_all is_output (takeWhile (\<lambda>e. \<not> is_menu_prompt e) post)"
proof (induction post)
  case Nil
  then show ?case by simp
next
  case (Cons e post)
  then show ?case
    by (cases e) (auto split: if_splits option.splits)
qed

lemma after_decline:
  assumes "gate_run L g (pre @ Input AskConfirmReplace a # post) \<noteq> None"
    and "\<not> affirms_overwrite L a"
  shows "gate_run L Declined post \<noteq> None"
proof (cases "gate_run L g pre")
  case None
  with assms(1) show ?thesis by (simp add: gate_run_append)
next
  case (Some g0)
  with assms show ?thesis
    by (auto simp: gate_run_append split: option.splits if_splits)
qed

subsection \<open>A declined overwrite ends the pass\<close>

lemma ask_modification_type_events:
  "ask_modification_type L inputs = (ev, r, rest) \<Longrightarrow>
     \<forall>e \<in> set ev. is_output e \<or> (\<exists>l. e = Input AskModification l)"
proof (induction inputs arbitrary: ev r rest)
  case Nil
  then show ?case by simp
next
  case (Cons l ls)
  obtain ev' r' rest' where rec: "ask_modification_type L ls = (ev', r', rest')"
    by (cases "ask_modification_type L ls")
  from Cons.IH [OF rec] Cons.prems rec show ?case
    by (auto simp: Let_def split: if_splits)
qed

lemma ask_margin_size_events:
  "ask_margin_size L inputs = (ev, r, rest) \<Longrightarrow>
     \<forall>e \<in> set ev. is_output e \<or> (\<exists>l. e = Input AskMargin l)"
proof (induction inputs arbitrary: ev r rest)
  case Nil
  then show ?case by simp
next
  case (Cons l ls)
  obtain ev' r' rest' where rec: "ask_margin_size L ls = (ev', r', rest')"
    by (cases "ask_margin_size L ls")
  from Cons.IH [OF rec] Cons.prems rec show ?case
    by (auto simp: Let_def split: if_splits option.splits)
qed

lemma ask_output_mode_events:
  "ask_output_mode L inputs = (ev, r, rest) \<Longrightarrow>
     \<forall>e \<in> set ev. is_output e \<or> (\<exists>l. e = Input AskOutputMode l)"
proof (induction inputs arbitrary: ev r rest)
  case Nil
  then show ?case by simp
next
  case (Cons l ls)
  obtain ev' r' rest' where rec: "ask_output_mode L ls = (ev', r', rest')"
    by (cases "ask_output_mode L ls")
  from Cons.IH [OF rec] Cons.prems rec show ?case
    by (auto simp: Let_def split: if_splits)
qed

lemma ask_file_selection_events:
  "ask_file_selection L epub_files inputs = (ev, r, rest) \<Longrightarrow>
     \<forall>e \<in> set ev. is_output e \<or> (\<exists>l. e = Input AskFiles l)"
proof (induction inputs arbitrary: ev r rest)
  case Nil
  then show ?case by simp
next
  case (Cons l ls)
  obtain ev' r' rest' where rec: "ask_file_selection L epub_files ls = (ev', r', rest')"
    by (cases "ask_file_selection L epub_files ls")
  from Cons.IH [OF rec] Cons.prems rec show ?case
    by (auto simp: Let_def split: if_splits option.splits)
qed

lemma batch_events_no_input:
  "Input p a \<notin> set (concat (map (batch_events mt margin_size mode) results))"
proof (induction results)
  case Nil
  then show ?case by simp
next
  case (Cons x results)
  obtain f r where x: "x = (f, r)" by (cases x)
  from Cons show ?case by (cases r) (auto simp: x)
qed

lemma confirm_and_process_no_confirm:
  assumes "confirm_and_process L mt margin_size mode output_dir sel inputs d = (ev, c, rest, d')"
  shows "Input AskConfirmReplace a \<notin> set ev"
  using assms batch_events_no_input [of AskConfirmReplace a mt margin_size mode]
  by (auto simp: confirm_and_process_def Let_def split: list.splits if_splits prod.splits)

lemma select_and_process_no_confirm:
  assumes "select_and_process L epub_files mt margin_size mode inputs d = (ev, c, rest, d')"
  shows "Input AskConfirmReplace a \<notin> set ev"
proof (cases "make_output_dir mode d")
  case (Inl e)
  with assms show ?thesis by (auto simp: select_and_process_def)
next
  case (Inr res)
  obtain output_dir ev0 where res: "res = (output_dir, ev0)" by (cases res)
  from Inr res have e0: "Input AskConfirmReplace a \<notin> set ev0"
    by (auto simp: make_output_dir_def split: output_mode.splits if_splits)
  obtain ev1 r1 inputs1 where s: "ask_file_selection L epub_files inputs = (ev1, r1, inputs1)"
    by (cases "ask_file_selection L epub_files inputs")
  from ask_file_selection_events [OF s] have e1: "Input AskConfirmReplace a \<notin> set ev1"
    by auto
  show ?thesis
  proof (cases r1)
    case (Inl e)
    with assms Inr res s e0 e1 show ?thesis by (auto simp: select_and_process_def)
  next
    case r: (Inr sel)
    show ?thesis
    proof (cases sel)
      case None
      with assms Inr res s r e0 e1 show ?thesis by (auto simp: select_and_process_def)
    next
      case (Some selected_files)
      obtain ev2 c2 inputs2 d2 where cp:
        "confirm_and_process L mt margin_size mode output_dir selected_files inputs1 d
           = (ev2, c2, inputs2, d2)"
        by (cases "confirm_and_process L mt margin_size mode output_dir selected_files inputs1 d")
      from cp have "Input AskConfirmReplace a \<notin> set ev2" by (rule confirm_and_process_no_confirm)
      with assms Inr res s r Some cp e0 e1 show ?thesis by (auto simp: select_and_process_def)
    qed
  qed
qed

lemma warn_and_continue_declined:
  assumes w: "warn_and_continue L epub_files mt margin_size mode inputs d = (ev, c, rest, d')"
    and a: "Input AskConfirmReplace a \<in> set ev" and n: "\<not> affirms_overwrite L a"
  shows "ev = [Input AskConfirmReplace a, Output OverwriteCancelled] \<and> c = Again \<and> d' = d"
proof (cases "mode = Replace")
  case False
  with w have "select_and_process L epub_files mt margin_size mode inputs d = (ev, c, rest, d')"
    by (simp add: warn_and_continue_def)
  then have "Input AskConfirmReplace a \<notin> set ev" by (rule select_and_process_no_confirm)
  with a show ?thesis by contradiction
next
  case True
  show ?thesis
  proof (cases inputs)
    case Nil
    with w True a show ?thesis by (auto simp: warn_and_continue_def)
  next
    case (Cons confirm_replace inputs1)
    show ?thesis
    proof (cases "affirms_overwrite L confirm_replace")
      case False
      with w True Cons a show ?thesis by (auto simp: warn_and_continue_def)
    next
      case yes: True
      obtain ev1 c1 rest1 d1 where s:
        "select_and_process L epub_files mt margin_size mode inputs1 d = (ev1, c1, rest1, d1)"
        by (cases "select_and_process L epub_files mt margin_size mode inputs1 d")
      then have "Input AskConfirmReplace a \<notin> set ev1" by (rule select_and_process_no_confirm)
      moreover from w True Cons yes s have "ev = Input AskConfirmReplace confirm_replace # ev1"
        by (auto simp: warn_and_continue_def)
      ultimately have "a = confirm_replace" using a by auto
      with yes n have False by simp
      then show ?thesis ..
    qed
  qed
qed

lemma menu_round_declined:
  assumes m: "menu_round L epub_files inputs d = (ev, c, rest, d')"
    and a: "Input AskConfirmReplace a \<in> set ev" and n: "\<not> affirms_overwrite L a"
  shows "c = Again \<and> d' = d \<and> (\<forall>f mt margin_size mode. Process f mt margin_size mode \<notin> set ev)"
proof -
  obtain ev1 r1 inputs1 where a1: "ask_modification_type L inputs = (ev1, r1, inputs1)"
    by (cases "ask_modification_type L inputs")
  note e1 = ask_modification_type_events [OF a1]
  have n1: "Input AskConfirmReplace a \<notin> set ev1" using e1 by auto
  have p1: "Process f mt m mode \<notin> set ev1" for f mt m mode using e1 by auto
  show ?thesis
  proof (cases r1)
    case (Inl e)
    with m a1 a n1 show ?thesis by (auto simp: menu_round_def)
  next
    case (Inr choice)
    show ?thesis
    proof (cases choice)
      case None
      with m a1 Inr a n1 show ?thesis by (auto simp: menu_round_def)
    next
      case (Some mt)
      obtain ev2 r2 inputs2 where a2:
        "(if mt = Margins \<or> mt = Both then ask_margin_size L inputs1 else ([], Inr 20, inputs1))
           = (ev2, r2, inputs2)"
        by (metis prod_cases3)
      have e2: "\<forall>e \<in> set ev2. is_output e \<or> (\<exists>l. e = Input AskMargin l)"
        using a2 by (auto split: if_splits dest: ask_margin_size_events)
      have n2: "Input AskConfirmReplace a \<notin> set ev2" using e2 by auto
      have p2: "Process f mt' m mode \<notin> set ev2" for f mt' m mode using e2 by auto
      show ?thesis
      proof (cases r2)
        case (Inl e)
        with m a1 Inr Some a2 a n1 n2 show ?thesis by (auto simp: menu_round_def)
      next
        case ms: (Inr margin_size)
        obtain ev3 r3 inputs3 where a3: "ask_output_mode L inputs2 = (ev3, r3, inputs3)"
          by (cases "ask_output_mode L inputs2")
        note e3 = ask_output_mode_events [OF a3]
        have n3: "Input AskConfirmReplace a \<notin> set ev3" using e3 by auto
        have p3: "Process f mt' m mode \<notin> set ev3" for f mt' m mode using e3 by auto
        show ?thesis
        proof (cases r3)
          case (Inl e)
          with m a1 Inr Some a2 ms a3 a n1 n2 n3 show ?thesis by (auto simp: menu_round_def)
        next
          case o: (Inr om)
          show ?thesis
          proof (cases om)
            case None
            with m a1 Inr Some a2 ms a3 o a n1 n2 n3 show ?thesis by (auto simp: menu_round_def)
          next
            case mode: (Some mode)
            obtain ev4 c4 inputs4 d4 where w:
              "warn_and_continue L epub_files mt margin_size mode inputs3 d = (ev4, c4, inputs4, d4)"
              by (cases "warn_and_continue L epub_files mt margin_size mode inputs3 d")
            from m a1 Inr Some a2 ms a3 o mode w have ev: "ev = ev1 @ ev2 @ ev3 @ ev4"
              and c: "c = c4" and d: "d' = d4"
              by (auto simp: menu_round_def)
            from ev a n1 n2 n3 have "Input AskConfirmReplace a \<in> set ev4" by auto
            from warn_and_continue_declined [OF w this n]
            have "ev4 = [Input AskConfirmReplace a, Output OverwriteCancelled]" "c4 = Again" "d4 = d"
              by simp_all
            with ev c d p1 p2 p3 show ?thesis by auto
          qed
        qed
      qed
    qed
  qed
qed


text \<open>
  Claim C9. In every run of the interactive program, on every sequence of input lines,
  the monitor accepts the events: a call of \<open>process_epub\<close> in replace mode comes only
  after an affirming answer at the overwrite prompt, given since the last menu prompt;
  and after any other answer at that prompt nothing but messages follows until the menu
  prompt is shown again. The pass of the loop in which the overwrite was declined ends
  in \<open>continue\<close>, calls \<open>process_epub\<close> on no file, and leaves the disk as it was.
\<close>

theorem overwrite_needs_confirmation:
  "gate_run L NotAsked (fst (main_interactive L inputs d)) \<noteq> None
   \<and> (\<forall>pre f mt m post.
        fst (main_interactive L inputs d) = pre @ Process f mt m Replace # post \<longrightarrow>
        (\<exists>pre1 a pre2. pre = pre1 @ Input AskConfirmReplace a # pre2 \<and> affirms_overwrite L a
           \<and> \<not> list_ex is_menu_prompt pre2))
   \<and> (\<forall>pre a post.
        fst (main_interactive L inputs d) = pre @ Input AskConfirmReplace a # post
        \<and> \<not> affirms_overwrite L a \<longrightarrow>
        list_all is_output (takeWhile (\<lambda>e. \<not> is_menu_prompt e) post))
   \<and> (\<forall>ev c rest d' a.
        menu_round L epub_files inputs d = (ev, c, rest, d')
        \<and> Input AskConfirmReplace a \<in> set ev \<and> \<not> affirms_overwrite L a \<longrightarrow>
        c = Again \<and> d' = d \<and> (\<forall>f mt m mode. Process f mt m mode \<notin> set ev))
   \<and> (\<not> affirms_overwrite L answer \<longrightarrow>
        warn_and_continue L epub_files modification_type margin_size Replace (answer # inputs) d
          = ([Input AskConfirmReplace answer, Output OverwriteCancelled], Again, inputs, d))"
proof (intro conjI allI impI)
  show acc: "gate_run L NotAsked (fst (main_interactive L inputs d)) \<noteq> None"
    by (rule gate_main_interactive)
  show "\<exists>pre1 a pre2. pre = pre1 @ Input AskConfirmReplace a # pre2 \<and> affirms_overwrite L a
           \<and> \<not> list_ex is_menu_prompt pre2"
    if "fst (main_interactive L inputs d) = pre @ Process f mt m Replace # post"
    for pre f mt m post
  proof -
    from acc that have "gate_run L NotAsked (pre @ Process f mt m Replace # post) \<noteq> None"
      by simp
    then have "gate_run L NotAsked pre = Some Confirmed"
      by (rule process_replace_needs_confirmed)
    then show ?thesis
      by (rule confirmed_has_answer) simp
  qed
  show "list_all is_output (takeWhile (\<lambda>e. \<not> is_menu_prompt e) post)"
    if "fst (main_interactive L inputs d) = pre @ Input AskConfirmReplace a # post
        \<and> \<not> affirms_overwrite L a"
    for pre a post
  proof -
    from acc that have "gate_run L NotAsked (pre @ Input AskConfirmReplace a # post) \<noteq> None"
      by simp
    with that have "gate_run L Declined post \<noteq> None"
      using after_decline by blast
    then show ?thesis by (rule declined_then_outputs)
  qed
  show "c = Again" "d' = d" "Process f mt m mode \<notin> set ev"
    if "menu_round L epub_files inputs d = (ev, c, rest, d')
        \<and> Input AskConfirmReplace a \<in> set ev \<and> \<not> affirms_overwrite L a"
    for ev c rest d' a f mt m mode
    using menu_round_declined [of L epub_files inputs d ev c rest d' a] that by simp_all
  show "warn_and_continue L epub_files modification_type margin_size Replace (answer # inputs) d
          = ([Input AskConfirmReplace answer, Output OverwriteCancelled], Again, inputs, d)"
    if "\<not> affirms_overwrite L answer"
    using that by (simp add: warn_and_continue_def)
qed

lemma sample_run_events:
  "fst (main_interactive (sample_lib [''a.epub''])
     [''2'', ''2'', ''no'', ''2'', ''2'', '' YES '', ''1'', ''y'', ''n'']
     [Path ''a.epub'' \<mapsto> Epub sample_epub]) =
   [Input AskModification ''2'', Input AskOutputMode ''2'',
    Input AskConfirmReplace ''no'', Output OverwriteCancelled,
    Input AskModification ''2'', Input AskOutputMode ''2'',
    Input AskConfirmReplace '' YES '', Input AskFiles ''1'',
    Input AskConfirmStart ''y'', Process ''a.epub'' Hyphens 20 Replace,
    Output (Processed 1 1), Input AskContinue ''n'', Output WorkFinished]"
  by code_simp

lemma sample_answers:
  "\<not> affirms_overwrite (sample_lib [''a.epub'']) ''no''"
  "affirms_overwrite (sample_lib [''a.epub'']) '' YES ''"
  by code_simp+

theorem overwrite_needs_confirmation_witness:
  "fst (main_interactive (sample_lib [''a.epub''])
     [''2'', ''2'', ''no'', ''2'', ''2'', '' YES '', ''1'', ''y'', ''n'']
     [Path ''a.epub'' \<mapsto> Epub sample_epub]) =
   [Input AskModification ''2'', Input AskOutputMode ''2'',
    Input AskConfirmReplace ''no'', Output OverwriteCancelled,
    Input AskModification ''2'', Input AskOutputMode ''2'',
    Input AskConfirmReplace '' YES '', Input AskFiles ''1'',
    Input AskConfirmStart ''y'', Process ''a.epub'' Hyphens 20 Replace,
    Output (Processed 1 1), Input AskContinue ''n'', Output WorkFinished]
   \<and> \<not> affirms_overwrite (sample_lib [''a.epub'']) ''no''
   \<and> affirms_overwrite (sample_lib [''a.epub'']) '' YES ''
   \<and> gate_run (sample_lib [''a.epub'']) NotAsked
        [Input AskModification ''2'', Input AskOutputMode ''2'',
         Input AskConfirmReplace ''no'', Output OverwriteCancelled,
         Input AskModification ''2'', Input AskOutputMode ''2'',
         Input AskConfirmReplace '' YES '', Input AskFiles ''1'',
         Input AskConfirmStart ''y'', Process ''a.epub'' Hyphens 20 Replace,
         Output (Processed 1 1), Input AskContinue ''n'', Output WorkFinished] \<noteq> None
   \<and> (\<exists>pre1 a pre2.
         [Input AskModification ''2'', Input AskOutputMode ''2'',
          Input AskConfirmReplace ''no'', Output OverwriteCancelled,
          Input AskModification ''2'', Input AskOutputMode ''2'',
          Input AskConfirmReplace '' YES '', Input AskFiles ''1'',
          Input AskConfirmStart ''y''] = pre1 @ Input AskConfirmReplace a # pre2
         \<and> affirms_overwrite (sample_lib [''a.epub'']) a \<and> \<not> list_ex is_menu_prompt pre2)"
proof -
  let ?L = "sample_lib [''a.epub'']"
  let ?pre = "[Input AskModification ''2'', Input AskOutputMode ''2'',
          Input AskConfirmReplace ''no'', Output OverwriteCancelled,
          Input AskModification ''2'', Input AskOutputMode ''2'',
          Input AskConfirmReplace '' YES '', Input AskFiles ''1'',
          Input AskConfirmStart ''y'']"
  let ?post = "[Output (Processed 1 1), Input AskContinue ''n'', Output WorkFinished]"
  note t = overwrite_needs_confirmation
    [where L = ?L and inputs = "[''2'', ''2'', ''no'', ''2'', ''2'', '' YES '', ''1'', ''y'', ''n'']"
       and d = "[Path ''a.epub'' \<mapsto> Epub sample_epub]"]
  note e = sample_run_events
  have split: "fst (main_interactive ?L
       [''2'', ''2'', ''no'', ''2'', ''2'', '' YES '', ''1'', ''y'', ''n'']
       [Path ''a.epub'' \<mapsto> Epub sample_epub])
     = ?pre @ Process ''a.epub'' Hyphens 20 Replace # ?post"
    unfolding e by simp
  from t have 1: "gate_run ?L NotAsked (fst (main_interactive ?L
       [''2'', ''2'', ''no'', ''2'', ''2'', '' YES '', ''1'', ''y'', ''n'']
       [Path ''a.epub'' \<mapsto> Epub sample_epub])) \<noteq> None"
    by blast
  from t split have 2: "\<exists>pre1 a pre2. ?pre = pre1 @ Input AskConfirmReplace a # pre2
         \<and> affirms_overwrite ?L a \<and> \<not> list_ex is_menu_prompt pre2"
    by blast
  from 1 2 e sample_answers show ?thesis
    by (simp only: simp_thms)
qed

end
